theory Spec2Isabelle
  imports Complex_Main "HOL-Library.Multiset" "HOL-Library.Option_ord" "HOL-Library.Sublist"
begin

section \<open>Data model\<close>

text \<open>
  The two modules \<^verbatim>\<open>research_visualizations.py\<close> and \<^verbatim>\<open>visualization_code.py\<close> work on two
  pandas DataFrames, \<^verbatim>\<open>merged_df\<close> (transactions) and \<^verbatim>\<open>anomaly_df\<close> (anomaly results).
  A DataFrame is a sequence of rows, each carrying an index label; the label of a row is
  independent of its ordinal position. Labels are integers here, the only labels that
  \<^verbatim>\<open>.iloc[...]\<close> accepts as positions.

  A numeric or text cell may be missing (NaN): \<open>None\<close>. A date cell is either text still
  to be parsed or a timestamp; missing dates are not modelled. Floating-point numbers are
  modelled as exact reals, a float result that may be NaN as \<open>real option\<close>. Rounding is
  not modelled. Only the values the functions compute are modelled, not the drawing.
\<close>

datatype error = IndexError | ValueError | DateParseError | ZeroDivisionError

datatype date_cell = DateText string | Timestamp int

record transaction =
  transaction_amount :: "real option"
  merchant_name :: "string option"
  mcc_description :: "string option"
  mcc :: "real option"
  merchant_zip :: "real option"
  region :: "string option"
  transaction_date :: date_cell

record anomaly_result =
  ensemble_score :: real
  kmeans_score_norm :: real
  iso_score_norm :: real
  recon_error :: real
  is_anomaly :: int

type_synonym 'r frame = "(int \<times> 'r) list"

record tables =
  merged_df :: "transaction frame"
  anomaly_df :: "anomaly_result frame"

section \<open>The pandas operations the source calls\<close>

text \<open>\<^verbatim>\<open>df.index\<close>: the labels, in row order.\<close>

definition index_of :: "'r frame \<Rightarrow> int list" where
  "index_of F = map fst F"

text \<open>\<^verbatim>\<open>df[mask]\<close> with a boolean mask computed row by row: the rows keep their labels.\<close>

definition rows_where :: "('r \<Rightarrow> bool) \<Rightarrow> 'r frame \<Rightarrow> 'r frame" where
  "rows_where p F = filter (\<lambda>(l, r). p r) F"

text \<open>
  \<^verbatim>\<open>df.iloc[idx]\<close> with a list of integers: purely positional. An entry outside
  \<open>[-n, n)\<close> raises IndexError (positional indexers are out-of-bounds); a negative entry
  counts from the end.
\<close>

definition iloc :: "'r frame \<Rightarrow> int list \<Rightarrow> error + 'r frame" where
  "iloc F idx =
     (let n = int (length F)
      in if \<exists>i \<in> set idx. n \<le> i \<or> i < - n then Inl IndexError
         else Inr (map (\<lambda>i. F ! nat (if i < 0 then n + i else i)) idx))"

text \<open>\<^verbatim>\<open>df.reset_index(drop=True)\<close>: the labels become 0, 1, 2, ...\<close>

definition reset_index :: "'r frame \<Rightarrow> 'r frame" where
  "reset_index F = zip (map int [0..<length F]) (map snd F)"

text \<open>\<^verbatim>\<open>df[name]\<close>: one column, as a Series with the frame's labels.\<close>

definition column :: "('r \<Rightarrow> 'v) \<Rightarrow> 'r frame \<Rightarrow> 'v frame" where
  "column f F = map (\<lambda>(l, r). (l, f r)) F"

text \<open>The values of a Series that are not missing.\<close>

definition present :: "'v option frame \<Rightarrow> 'v list" where
  "present S = concat (map (\<lambda>(l, v). case v of None \<Rightarrow> [] | Some x \<Rightarrow> [x]) S)"

text \<open>
  \<^verbatim>\<open>series.value_counts()\<close>: missing values are dropped (\<^verbatim>\<open>dropna=True\<close>), each distinct value
  is counted, and the pairs are sorted by count, descending; the values are collected in
  order of first occurrence and the sort keeps that order among equal counts.
\<close>

definition first_occurrences :: "'a list \<Rightarrow> 'a list" where
  "first_occurrences xs = rev (remdups (rev xs))"

definition value_counts :: "'v option frame \<Rightarrow> ('v \<times> nat) list" where
  "value_counts S =
     (let vs = present S
      in sort_key (\<lambda>(v, c). - int c) (map (\<lambda>v. (v, count_list vs v)) (first_occurrences vs)))"

text \<open>\<^verbatim>\<open>series.head(n)\<close>; \<^verbatim>\<open>head()\<close> is \<^verbatim>\<open>head(5)\<close>.\<close>

definition head :: "nat \<Rightarrow> 'a list \<Rightarrow> 'a list" where
  "head n xs = take n xs"

text \<open>
  \<^verbatim>\<open>series.mean()\<close>: missing values are skipped (\<^verbatim>\<open>skipna=True\<close>); with no value left the
  result is NaN (\<open>None\<close>), and nothing is raised.
\<close>

definition mean :: "real option frame \<Rightarrow> real option" where
  "mean S =
     (let vs = present S
      in if vs = [] then None else Some (sum_list vs / real (length vs)))"

text \<open>
  \<^verbatim>\<open>df.nlargest(n, name)\<close> (\<^verbatim>\<open>keep='first'\<close>): nothing for \<open>n \<le> 0\<close>; otherwise the rows whose
  key is present, sorted by key descending with the first occurrence first among equal keys,
  followed by the rows whose key is missing in their original order, cut to \<open>n\<close> rows.
\<close>

definition desc_key :: "('r \<Rightarrow> real option) \<Rightarrow> int \<times> 'r \<Rightarrow> real" where
  "desc_key key = (\<lambda>(l, r). case key r of None \<Rightarrow> 0 | Some a \<Rightarrow> - a)"

definition nlargest :: "int \<Rightarrow> ('r \<Rightarrow> real option) \<Rightarrow> 'r frame \<Rightarrow> 'r frame" where
  "nlargest n key F =
     (if n \<le> 0 then []
      else let dropped = rows_where (\<lambda>r. key r \<noteq> None) F;
               nan_rows = rows_where (\<lambda>r. key r = None) F
           in take (nat n) (sort_key (desc_key key) dropped @ nan_rows))"

text \<open>
  \<^verbatim>\<open>pd.to_datetime(series)\<close>: every text cell is parsed; one unparseable cell raises.
  The parser itself belongs to pandas and is a parameter: \<open>parse s = None\<close> says that
  \<open>s\<close> is not a date. A timestamp is a number of nanoseconds.
\<close>

fun parse_cell :: "(string \<Rightarrow> int option) \<Rightarrow> date_cell \<Rightarrow> error + date_cell" where
  "parse_cell parse (Timestamp t) = Inr (Timestamp t)"
| "parse_cell parse (DateText s) =
     (case parse s of None \<Rightarrow> Inl DateParseError | Some t \<Rightarrow> Inr (Timestamp t))"

fun to_datetime :: "(string \<Rightarrow> int option) \<Rightarrow> date_cell frame \<Rightarrow> error + date_cell frame" where
  "to_datetime parse [] = Inr []"
| "to_datetime parse ((l, c) # S) =
     (case parse_cell parse c of
        Inl e \<Rightarrow> Inl e
      | Inr c' \<Rightarrow> (case to_datetime parse S of Inl e \<Rightarrow> Inl e | Inr S' \<Rightarrow> Inr ((l, c') # S')))"

text \<open>\<^verbatim>\<open>df[name] = series\<close> where the series has the frame's own labels, row by row.\<close>

definition set_transaction_date :: "transaction frame \<Rightarrow> date_cell frame \<Rightarrow> transaction frame" where
  "set_transaction_date F S = map (\<lambda>((l, r), (l', c)). (l, r\<lparr>transaction_date := c\<rparr>)) (zip F S)"

text \<open>
  \<^verbatim>\<open>sns.histplot(data=series, bins=n)\<close>: nothing is drawn for an empty series. Otherwise the
  range from the smallest to the largest value of the series (widened by one half on each
  side when they coincide) is cut into \<open>n\<close> bins of equal width; a value goes to the bin
  numbered by the integer part of its relative position times \<open>n\<close>, and the largest value
  to the last bin.
\<close>

definition numeric_dates :: "date_cell frame \<Rightarrow> real list" where
  "numeric_dates S =
     concat (map (\<lambda>(l, c). case c of Timestamp t \<Rightarrow> [real_of_int t] | DateText s \<Rightarrow> []) S)"

definition bin_range :: "real list \<Rightarrow> real \<times> real" where
  "bin_range xs =
     (let lo = Min (set xs); hi = Max (set xs)
      in if lo = hi then (lo - 1 / 2, hi + 1 / 2) else (lo, hi))"

definition bin_index :: "real \<times> real \<Rightarrow> nat \<Rightarrow> real \<Rightarrow> nat" where
  "bin_index rng n x =
     (let i = nat \<lfloor>(x - fst rng) / (snd rng - fst rng) * real n\<rfloor>
      in if i = n then n - 1 else i)"

definition bin_edges :: "real \<times> real \<Rightarrow> nat \<Rightarrow> real list" where
  "bin_edges rng n = map (\<lambda>k. fst rng + real k * (snd rng - fst rng) / real n) [0..<Suc n]"

definition bin_counts :: "real \<times> real \<Rightarrow> nat \<Rightarrow> real list \<Rightarrow> nat list" where
  "bin_counts rng n xs = map (\<lambda>b. length (filter (\<lambda>x. bin_index rng n x = b) xs)) [0..<n]"

definition histplot :: "real list \<Rightarrow> nat \<Rightarrow> (real list \<times> nat list) option" where
  "histplot xs n =
     (if xs = [] then None
      else Some (bin_edges (bin_range xs) n, bin_counts (bin_range xs) n xs))"

text \<open>
  \<^verbatim>\<open>df[names].corr()\<close>: Pearson correlation of every pair of columns over the rows where
  both cells are present; NaN when there is no such row or when one of the two sums of
  squared deviations is zero.
\<close>

definition complete_pairs :: "real option list \<Rightarrow> real option list \<Rightarrow> (real \<times> real) list" where
  "complete_pairs xs ys =
     concat (map (\<lambda>(x, y). case (x, y) of (Some a, Some b) \<Rightarrow> [(a, b)] | _ \<Rightarrow> []) (zip xs ys))"

definition pearson :: "(real \<times> real) list \<Rightarrow> real option" where
  "pearson ps =
     (if ps = [] then None
      else let n = real (length ps);
               meanx = sum_list (map fst ps) / n;
               meany = sum_list (map snd ps) / n;
               ssqdmx = sum_list (map (\<lambda>(x, y). (x - meanx) * (x - meanx)) ps);
               ssqdmy = sum_list (map (\<lambda>(x, y). (y - meany) * (y - meany)) ps);
               covxy = sum_list (map (\<lambda>(x, y). (x - meanx) * (y - meany)) ps);
               divisor = sqrt (ssqdmx * ssqdmy)
           in if divisor \<noteq> 0 then Some (covxy / divisor) else None)"

definition corr :: "real option list list \<Rightarrow> real option list list" where
  "corr cols = map (\<lambda>xs. map (\<lambda>ys. pearson (complete_pairs xs ys)) cols) cols"

text \<open>
  \<^verbatim>\<open>df[name] = series\<close> for a new column: the series is aligned to the frame by label.
  With identical indexes the values are taken row by row; otherwise a duplicate label in
  the series raises ValueError (cannot reindex on an axis with duplicate labels), and a
  label of the frame that the series lacks gets a missing value.
\<close>

definition align_to :: "'r frame \<Rightarrow> 'v frame \<Rightarrow> error + ('r \<times> 'v option) frame" where
  "align_to F S =
     (if index_of F = index_of S then Inr (map (\<lambda>((l, r), (l', v)). (l, (r, Some v))) (zip F S))
      else if \<not> distinct (index_of S) then Inl ValueError
      else Inr (map (\<lambda>(l, r). (l, (r, map_of S l))) F))"

text \<open>Python's \<^verbatim>\<open>a / b\<close> on integers: a float, or ZeroDivisionError.\<close>

definition truediv :: "int \<Rightarrow> int \<Rightarrow> error + real" where
  "truediv a b = (if b = 0 then Inl ZeroDivisionError else Inr (real_of_int a / real_of_int b))"

section \<open>The source's functions\<close>

text \<open>
  The expression \<^verbatim>\<open>merged_df.iloc[anomaly_df[anomaly_df['is_anomaly'] == v].index]\<close>, which
  every chart repeats with \<open>v = 1\<close>: the index labels of the selected rows of \<open>anomaly_df\<close>
  are used as positions in \<open>merged_df\<close>.
\<close>

definition select_rows :: "int \<Rightarrow> transaction frame \<Rightarrow> anomaly_result frame \<Rightarrow> error + transaction frame" where
  "select_rows v T A = iloc T (index_of (rows_where (\<lambda>a. is_anomaly a = v) A))"

definition select_anomalous :: "transaction frame \<Rightarrow> anomaly_result frame \<Rightarrow> error + transaction frame" where
  "select_anomalous T A = select_rows 1 T A"

text \<open>The selection as the specification words it: by ordinal position in both tables.\<close>

definition spec_anomalous_subset :: "transaction frame \<Rightarrow> anomaly_result frame \<Rightarrow> transaction frame" where
  "spec_anomalous_subset T A = map fst (filter (\<lambda>(t, a). is_anomaly (snd a) = 1) (zip T A))"

text \<open>
  \<^verbatim>\<open>top_anomalies.nlargest(10, 'transaction amount')\<close>, with the source's constant 10 as
  the parameter \<open>K\<close>.
\<close>

definition top_k :: "int \<Rightarrow> transaction frame \<Rightarrow> transaction frame" where
  "top_k K S = nlargest K transaction_amount S"

record overview =
  top_anomalies_sorted :: "transaction frame"
  region_anomalies :: "(string \<times> nat) list"

text \<open>
  \<^verbatim>\<open>research_visualizations.create_research_visualizations\<close>: panel 5 (the ten largest
  anomalies by amount) and panel 6 (anomalies per region). Each function returns the
  tables as it leaves them, next to its result.
\<close>

definition create_research_visualizations :: "tables \<Rightarrow> tables \<times> (error + overview)" where
  "create_research_visualizations tb =
     (case select_anomalous (merged_df tb) (anomaly_df tb) of
        Inl e \<Rightarrow> (tb, Inl e)
      | Inr top_anomalies \<Rightarrow>
          (tb, Inr \<lparr>top_anomalies_sorted = top_k 10 top_anomalies,
                     region_anomalies = value_counts (column region top_anomalies)\<rparr>))"

text \<open>
  \<^verbatim>\<open>create_temporal_analysis\<close>, with the source's constant 30 as the parameter \<open>bins\<close>:
  the date column of \<open>merged_df\<close> is parsed and assigned back to \<open>merged_df\<close>, then the
  dates of the selected rows are binned.
\<close>

definition temporal_buckets ::
  "nat \<Rightarrow> (string \<Rightarrow> int option) \<Rightarrow> tables \<Rightarrow> tables \<times> (error + (real list \<times> nat list) option)" where
  "temporal_buckets bins parse tb =
     (case to_datetime parse (column transaction_date (merged_df tb)) of
        Inl e \<Rightarrow> (tb, Inl e)
      | Inr dates \<Rightarrow>
          (let tb' = tb\<lparr>merged_df := set_transaction_date (merged_df tb) dates\<rparr>
           in case select_anomalous (merged_df tb') (anomaly_df tb') of
                Inl e \<Rightarrow> (tb', Inl e)
              | Inr S \<Rightarrow> (tb', Inr (histplot (numeric_dates (column transaction_date S)) bins))))"

definition create_temporal_analysis ::
  "(string \<Rightarrow> int option) \<Rightarrow> tables \<Rightarrow> tables \<times> (error + (real list \<times> nat list) option)" where
  "create_temporal_analysis parse tb = temporal_buckets 30 parse tb"

text \<open>\<^verbatim>\<open>create_mcc_analysis\<close>: the ten most frequent category descriptions among the anomalies.\<close>

definition create_mcc_analysis :: "tables \<Rightarrow> tables \<times> (error + (string \<times> nat) list)" where
  "create_mcc_analysis tb =
     (case select_anomalous (merged_df tb) (anomaly_df tb) of
        Inl e \<Rightarrow> (tb, Inl e)
      | Inr S \<Rightarrow> (tb, Inr (head 10 (value_counts (column mcc_description S)))))"

text \<open>
  \<^verbatim>\<open>create_correlation_analysis\<close> and \<^verbatim>\<open>create_heatmap_visualization\<close>: the correlation
  matrix of the columns \<^verbatim>\<open>['transaction amount', 'mcc', 'merchant zip']\<close>.
\<close>

definition numerical_features :: "(transaction \<Rightarrow> real option) list" where
  "numerical_features = [transaction_amount, mcc, merchant_zip]"

definition correlation_matrix :: "(transaction \<Rightarrow> real option) list \<Rightarrow> transaction frame \<Rightarrow> real option list list" where
  "correlation_matrix names T = corr (map (\<lambda>f. map (\<lambda>(l, r). f r) T) names)"

definition create_correlation_analysis :: "tables \<Rightarrow> tables \<times> (error + real option list list)" where
  "create_correlation_analysis tb = (tb, Inr (correlation_matrix numerical_features (merged_df tb)))"

definition create_heatmap_visualization :: "tables \<Rightarrow> tables \<times> (error + real option list list)" where
  "create_heatmap_visualization tb = (tb, Inr (correlation_matrix numerical_features (merged_df tb)))"

text \<open>
  \<^verbatim>\<open>create_boxplot_analysis\<close>: a copy of \<open>merged_df\<close> gets the column \<open>is_anomaly\<close>.
  \<^verbatim>\<open>research_visualizations.py\<close> resets both indexes first, \<^verbatim>\<open>visualization_code.py\<close>
  does not.
\<close>

definition create_boxplot_analysis :: "tables \<Rightarrow> tables \<times> (error + (transaction \<times> int option) frame)" where
  "create_boxplot_analysis tb =
     (let plot_data = reset_index (merged_df tb);
          anomaly_data = reset_index (anomaly_df tb)
      in (tb, align_to plot_data (column is_anomaly anomaly_data)))"

definition create_boxplot_analysis_vc :: "tables \<Rightarrow> tables \<times> (error + (transaction \<times> int option) frame)" where
  "create_boxplot_analysis_vc tb = (tb, align_to (merged_df tb) (column is_anomaly (anomaly_df tb)))"

text \<open>
  The summary report. \<^verbatim>\<open>len(anomaly_df[anomaly_df['is_anomaly'] == 1]) / len(anomaly_df) * 100\<close>
  is the percentage of flagged rows; the two means are those of the amounts of the rows
  selected with \<open>is_anomaly == 1\<close> and with \<open>is_anomaly == 0\<close>.
\<close>

record summary =
  total_anomalies :: nat
  flagged_percent :: real
  top_regions :: "(string \<times> nat) list"
  mean_anomalous :: "real option"
  mean_normal :: "real option"

definition anomaly_count :: "anomaly_result frame \<Rightarrow> nat" where
  "anomaly_count A = length (rows_where (\<lambda>a. is_anomaly a = 1) A)"

definition flagged_percentage :: "anomaly_result frame \<Rightarrow> error + real" where
  "flagged_percentage A =
     (case truediv (int (anomaly_count A)) (int (length A)) of
        Inl e \<Rightarrow> Inl e
      | Inr q \<Rightarrow> Inr (q * 100))"

definition grouped_mean :: "transaction frame \<Rightarrow> anomaly_result frame \<Rightarrow> error + real option \<times> real option" where
  "grouped_mean T A =
     (case select_rows 1 T A of
        Inl e \<Rightarrow> Inl e
      | Inr S1 \<Rightarrow>
          (case select_rows 0 T A of
             Inl e \<Rightarrow> Inl e
           | Inr S0 \<Rightarrow> Inr (mean (column transaction_amount S1), mean (column transaction_amount S0))))"

definition summary_report ::
  "transaction frame \<Rightarrow> anomaly_result frame \<Rightarrow> (string \<times> nat) list \<Rightarrow> error + summary" where
  "summary_report T A regions =
     (case flagged_percentage A of
        Inl e \<Rightarrow> Inl e
      | Inr pct \<Rightarrow>
          (case grouped_mean T A of
             Inl e \<Rightarrow> Inl e
           | Inr (m1, m0) \<Rightarrow>
               Inr \<lparr>total_anomalies = anomaly_count A, flagged_percent = pct,
                    top_regions = head 5 regions, mean_anomalous = m1, mean_normal = m0\<rparr>))"

text \<open>\<^verbatim>\<open>research_visualizations.print_summary_statistics\<close>: both indexes are reset first.\<close>

definition print_summary_statistics :: "tables \<Rightarrow> tables \<times> (error + summary)" where
  "print_summary_statistics tb =
     (let merged_data = reset_index (merged_df tb);
          anomaly_data = reset_index (anomaly_df tb)
      in case select_anomalous merged_data anomaly_data of
           Inl e \<Rightarrow> (tb, Inl e)
         | Inr S \<Rightarrow> (tb, summary_report merged_data anomaly_data (value_counts (column region S))))"

text \<open>
  \<^verbatim>\<open>visualization_code.create_research_visualizations\<close>: the overview panels, the temporal
  histogram (which assigns the parsed dates to \<open>merged_df\<close>), the category counts and the
  summary report, one after the other, on the tables as they are passed in.
\<close>

record full_report =
  panels :: overview
  temporal :: "(real list \<times> nat list) option"
  mcc_anomalies :: "(string \<times> nat) list"
  statistics :: summary

definition create_research_visualizations_vc ::
  "(string \<Rightarrow> int option) \<Rightarrow> tables \<Rightarrow> tables \<times> (error + full_report)" where
  "create_research_visualizations_vc parse tb =
     (case create_research_visualizations tb of
        (_, Inl e) \<Rightarrow> (tb, Inl e)
      | (_, Inr ov) \<Rightarrow>
          (case create_temporal_analysis parse tb of
             (tb', Inl e) \<Rightarrow> (tb', Inl e)
           | (tb', Inr h) \<Rightarrow>
               (case create_mcc_analysis tb' of
                  (_, Inl e) \<Rightarrow> (tb', Inl e)
                | (_, Inr m) \<Rightarrow>
                    (case summary_report (merged_df tb') (anomaly_df tb') (region_anomalies ov) of
                       Inl e \<Rightarrow> (tb', Inl e)
                     | Inr st \<Rightarrow>
                         (tb', Inr \<lparr>panels = ov, temporal = h, mcc_anomalies = m, statistics = st\<rparr>)))))"

section \<open>Notions used in the statements, and sample tables\<close>

definition txn :: "real \<Rightarrow> string \<Rightarrow> date_cell \<Rightarrow> transaction" where
  "txn a reg d =
     \<lparr>transaction_amount = Some a, merchant_name = Some ''ACME'', mcc_description = Some ''OFFICE'',
      mcc = Some 5111, merchant_zip = Some 20001, region = Some reg, transaction_date = d\<rparr>"

definition flagged :: "int \<Rightarrow> anomaly_result" where
  "flagged v =
     \<lparr>ensemble_score = 0, kmeans_score_norm = 0, iso_score_norm = 0, recon_error = 0, is_anomaly = v\<rparr>"

definition sample_transactions :: "nat \<Rightarrow> transaction frame" where
  "sample_transactions n = map (\<lambda>i. (int i, txn (real i) ''NE'' (Timestamp (int i)))) [0..<n]"

definition sample_anomalies :: "nat \<Rightarrow> anomaly_result frame" where
  "sample_anomalies n = map (\<lambda>i. (int i, flagged (if even i then 1 else 0))) [0..<n]"

text \<open>Two tables of two rows each whose first row was dropped without resetting the index.\<close>

definition filtered_transactions :: "transaction frame" where
  "filtered_transactions = [(1, txn 10 ''NE'' (Timestamp 0)), (2, txn 50 ''SW'' (Timestamp 1))]"

definition filtered_anomalies :: "anomaly_result frame" where
  "filtered_anomalies = [(1, flagged 1), (2, flagged 0)]"



text \<open>
  The order in which \<open>nlargest\<close> considers the rows, before it cuts: keyed rows by key
  descending, then the rows without a key.
\<close>

definition ordered_desc :: "('r \<Rightarrow> real option) \<Rightarrow> 'r frame \<Rightarrow> 'r frame" where
  "ordered_desc key F =
     sort_key (desc_key key) (rows_where (\<lambda>r. key r \<noteq> None) F) @ rows_where (\<lambda>r. key r = None) F"

text \<open>Four transactions with amounts 10, 50, 30, 90; rows 1 and 3 are flagged.\<close>

definition example_transactions :: "transaction frame" where
  "example_transactions =
     [(0, txn 10 ''NE'' (Timestamp 0)), (1, txn 50 ''SW'' (Timestamp 30)),
      (2, txn 30 ''NE'' (Timestamp 59)), (3, txn 90 ''MW'' (Timestamp 60))]"

definition example_anomalies :: "anomaly_result frame" where
  "example_anomalies = [(0, flagged 0), (1, flagged 1), (2, flagged 0), (3, flagged 1)]"

text \<open>The position at which a value first occurs in a list.\<close>

definition first_index :: "'a list \<Rightarrow> 'a \<Rightarrow> nat" where
  "first_index xs v = length (takeWhile (\<lambda>y. y \<noteq> v) xs)"

text \<open>Two transactions, the second without a region.\<close>

definition region_missing :: "transaction frame" where
  "region_missing =
     [(0, txn 10 ''NE'' (Timestamp 0)), (1, (txn 50 ''SW'' (Timestamp 1))\<lparr>region := None\<rparr>)]"

text \<open>
  \<open>dates_parsed parse T T'\<close>: \<open>T'\<close> is \<open>T\<close> with every transaction date replaced by its
  parsed value, labels and all other fields kept.
\<close>

definition dates_parsed :: "(string \<Rightarrow> int option) \<Rightarrow> transaction frame \<Rightarrow> transaction frame \<Rightarrow> bool" where
  "dates_parsed parse T T' =
     list_all2 (\<lambda>(l, r) (l', r'). l' = l \<and>
        (case parse_cell parse (transaction_date r) of
           Inl e \<Rightarrow> False
         | Inr c \<Rightarrow> r' = r\<lparr>transaction_date := c\<rparr>)) T T'"

text \<open>A parser that knows two dates, and tables whose dates are still text.\<close>

definition sample_parse :: "string \<Rightarrow> int option" where
  "sample_parse s =
     (if s = ''1970-01-01'' then Some 0
      else if s = ''1970-01-02'' then Some 86400000000000
      else None)"

definition text_dated :: tables where
  "text_dated = \<lparr>merged_df = [(0, txn 10 ''NE'' (DateText ''1970-01-02''))], anomaly_df = [(0, flagged 1)]\<rparr>"

definition ill_dated :: tables where
  "ill_dated = \<lparr>merged_df = [(0, txn 10 ''NE'' (DateText ''yesterday''))], anomaly_df = [(0, flagged 0)]\<rparr>"

text \<open>A table whose only anomaly result carries the label 5.\<close>

definition ill_anomalies :: tables where
  "ill_anomalies = \<lparr>merged_df = [(0, txn 10 ''NE'' (Timestamp 0))], anomaly_df = [(5, flagged 1)]\<rparr>"

definition example_tables :: tables where
  "example_tables = \<lparr>merged_df = example_transactions, anomaly_df = example_anomalies\<rparr>"

text \<open>
  Four transactions with amounts 1, 2, 3 and a missing one, category codes 1, 3, 2, 10 and
  one postal code.
\<close>

definition varied_transactions :: "transaction frame" where
  "varied_transactions =
     [(0, (txn 1 ''NE'' (Timestamp 0))\<lparr>mcc := Some 1\<rparr>),
      (1, (txn 2 ''NE'' (Timestamp 0))\<lparr>mcc := Some 3\<rparr>),
      (2, (txn 3 ''NE'' (Timestamp 0))\<lparr>mcc := Some 2\<rparr>),
      (3, (txn 0 ''NE'' (Timestamp 0))\<lparr>transaction_amount := None, mcc := Some 10\<rparr>)]"

definition varied_tables :: tables where
  "varied_tables = \<lparr>merged_df = varied_transactions, anomaly_df = []\<rparr>"

text \<open>The values of a column that are not missing.\<close>

definition non_missing :: "'a option list \<Rightarrow> 'a list" where
  "non_missing xs = concat (map (\<lambda>v. case v of None \<Rightarrow> [] | Some a \<Rightarrow> [a]) xs)"

text \<open>One column of a table, without the labels.\<close>

definition field_values :: "(transaction \<Rightarrow> real option) \<Rightarrow> transaction frame \<Rightarrow> real option list" where
  "field_values f T = map (\<lambda>(l, r). f r) T"

section \<open>Selecting the anomalous rows\<close>

lemma iloc_in_range:
  "\<forall>i \<in> set idx. 0 \<le> i \<and> i < int (length F) \<Longrightarrow> iloc F idx = Inr (map (\<lambda>i. F ! nat i) idx)"
  by (auto simp: iloc_def Let_def)

lemma iloc_cases:
  "iloc F idx =
     (if \<forall>i \<in> set idx. - int (length F) \<le> i \<and> i < int (length F)
      then Inr (map (\<lambda>i. F ! nat (if i < 0 then int (length F) + i else i)) idx)
      else Inl IndexError)"
proof -
  have "(\<exists>i \<in> set idx. int (length F) \<le> i \<or> i < - int (length F)) \<longleftrightarrow>
        \<not> (\<forall>i \<in> set idx. - int (length F) \<le> i \<and> i < int (length F))"
    by (auto simp: not_le not_less)
  then show ?thesis unfolding iloc_def Let_def by simp
qed

lemma iloc_empty: "iloc F [] = Inr []"
  by (simp add: iloc_def)

lemma zip_snoc_right:
  "length A < length T \<Longrightarrow> zip T (A @ [x]) = zip T A @ [(T ! length A, x)]"
proof (induction A arbitrary: T)
  case Nil
  then show ?case by (cases T) simp_all
next
  case (Cons a A)
  then show ?case by (cases T) simp_all
qed

lemma index_rows_where_snoc:
  "index_of (rows_where p (A @ [(l, r)])) = index_of (rows_where p A) @ (if p r then [l] else [])"
  by (simp add: index_of_def rows_where_def)

lemma positional_selection:
  "index_of A = map int [0..<length A] \<Longrightarrow> length A \<le> length T \<Longrightarrow>
   map (\<lambda>i. T ! nat i) (index_of (rows_where p A)) = map fst (filter (\<lambda>(t, a). p (snd a)) (zip T A))"
proof (induction A rule: rev_induct)
  case Nil
  then show ?case by (simp add: index_of_def rows_where_def)
next
  case (snoc x A)
  obtain l r where x: "x = (l, r)" by (cases x)
  from snoc.prems(1) have idx: "index_of A = map int [0..<length A]" and l: "l = int (length A)"
    by (simp_all add: index_of_def x)
  from snoc.prems(2) have len: "length A < length T" by simp
  have z: "zip T (A @ [x]) = zip T A @ [(T ! length A, x)]"
    using len by (rule zip_snoc_right)
  show ?case
    using snoc.IH [OF idx] len z
    by (simp add: index_rows_where_snoc x l)
qed

lemma default_index_in_range:
  assumes "index_of A = map int [0..<length A]" and "length A \<le> length T"
  shows "\<forall>i \<in> set (index_of (rows_where p A)). 0 \<le> i \<and> i < int (length T)"
proof -
  have "set (index_of (rows_where p A)) \<subseteq> set (index_of A)"
    by (auto simp: index_of_def rows_where_def)
  with assms show ?thesis by auto
qed

lemma select_rows_default_index:
  "index_of A = map int [0..<length A] \<Longrightarrow> length A \<le> length T \<Longrightarrow>
   select_rows v T A = Inr (map fst (filter (\<lambda>(t, a). is_anomaly (snd a) = v) (zip T A)))"
  unfolding select_rows_def
  by (simp add: iloc_in_range [OF default_index_in_range] positional_selection)

lemma index_of_reset_index: "index_of (reset_index F) = map int [0..<length (reset_index F)]"
  by (simp add: index_of_def reset_index_def)

lemma length_reset_index: "length (reset_index F) = length F"
  by (simp add: reset_index_def)

text \<open>
  After \<^verbatim>\<open>reset_index(drop=True)\<close> on both tables, as \<^verbatim>\<open>print_summary_statistics\<close> does
  it, the labels are the positions and the selection is the positional one.
\<close>

lemma select_anomalous_after_reset_index:
  assumes "length A \<le> length T"
  shows "select_anomalous (reset_index T) (reset_index A)
           = Inr (spec_anomalous_subset (reset_index T) (reset_index A))"
proof -
  have "length (reset_index A) \<le> length (reset_index T)"
    using assms by (simp only: length_reset_index)
  with index_of_reset_index [of A] show ?thesis
    by (simp add: select_anomalous_def spec_anomalous_subset_def select_rows_default_index)
qed

lemma index_of_sample_anomalies:
  "index_of (sample_anomalies n) = map int [0..<length (sample_anomalies n)]"
  by (simp add: index_of_def sample_anomalies_def comp_def)

text \<open>
  C1. The selection of \<^verbatim>\<open>create_research_visualizations\<close> reads the index labels of
  \<open>anomaly_df\<close> and uses them as positions in \<open>merged_df\<close>, so its result depends on those
  labels. On two aligned tables of two rows whose labels are 1 and 2 (the first row of a
  longer table was dropped, the index was not reset) and whose first row is flagged, it
  returns the second transaction, where the row at the flagged ordinal position is the
  first; with the second row flagged instead it raises IndexError.
\<close>

theorem select_anomalous_reads_labels:
  "select_anomalous filtered_transactions filtered_anomalies = Inr [(2, txn 50 ''SW'' (Timestamp 1))]
   \<and> spec_anomalous_subset filtered_transactions filtered_anomalies = [(1, txn 10 ''NE'' (Timestamp 0))]
   \<and> select_anomalous filtered_transactions [(1, flagged 0), (2, flagged 1)] = Inl IndexError
   \<and> length filtered_transactions = length filtered_anomalies"
  by (simp add: filtered_transactions_def filtered_anomalies_def select_anomalous_def
      select_rows_def iloc_def index_of_def rows_where_def spec_anomalous_subset_def flagged_def)

text \<open>
  C2, as stated, fails: with 100 transactions and 99 anomaly results under default labels
  the selection returns a result, the rows at the flagged positions.
\<close>

theorem select_anomalous_100_99:
  "length (sample_transactions 100) = 100 \<and> length (sample_anomalies 99) = 99
   \<and> select_anomalous (sample_transactions 100) (sample_anomalies 99)
       = Inr (spec_anomalous_subset (sample_transactions 100) (sample_anomalies 99))"
proof -
  have len: "length (sample_anomalies 99) \<le> length (sample_transactions 100)"
    by (simp add: sample_anomalies_def sample_transactions_def)
  show ?thesis
    using select_rows_default_index [OF index_of_sample_anomalies len, of 1]
    by (simp add: select_anomalous_def spec_anomalous_subset_def sample_anomalies_def
        sample_transactions_def)
qed

text \<open>
  C2, amended. The selection compares no lengths. For tables of any lengths it fails only
  with IndexError, and exactly when a flagged row of \<open>anomaly_df\<close> carries a label outside
  \<open>[-len(T), len(T))\<close>; otherwise it returns the rows of \<open>merged_df\<close> at those labels. When
  \<open>anomaly_df\<close> carries the default labels and is not longer than \<open>merged_df\<close>, the result
  is the rows at the flagged ordinal positions.
\<close>

theorem select_anomalous_no_length_check:
  "(select_anomalous T A = Inl IndexError \<longleftrightarrow>
      (\<exists>l \<in> set (index_of (rows_where (\<lambda>a. is_anomaly a = 1) A)). l < - int (length T) \<or> int (length T) \<le> l))
   \<and> (select_anomalous T A \<noteq> Inl IndexError \<longrightarrow>
        select_anomalous T A =
          Inr (map (\<lambda>l. T ! nat (if l < 0 then int (length T) + l else l))
                 (index_of (rows_where (\<lambda>a. is_anomaly a = 1) A))))
   \<and> (index_of A = map int [0..<length A] \<longrightarrow> length A \<le> length T \<longrightarrow>
        select_anomalous T A = Inr (spec_anomalous_subset T A))"
proof (intro conjI impI)
  show "select_anomalous T A = Inl IndexError \<longleftrightarrow>
      (\<exists>l \<in> set (index_of (rows_where (\<lambda>a. is_anomaly a = 1) A)). l < - int (length T) \<or> int (length T) \<le> l)"
    unfolding select_anomalous_def select_rows_def iloc_def Let_def by auto
next
  assume "select_anomalous T A \<noteq> Inl IndexError"
  then show "select_anomalous T A =
          Inr (map (\<lambda>l. T ! nat (if l < 0 then int (length T) + l else l))
                 (index_of (rows_where (\<lambda>a. is_anomaly a = 1) A)))"
    unfolding select_anomalous_def select_rows_def iloc_def Let_def by (simp split: if_splits)
next
  assume "index_of A = map int [0..<length A]" and "length A \<le> length T"
  then show "select_anomalous T A = Inr (spec_anomalous_subset T A)"
    by (simp add: select_anomalous_def spec_anomalous_subset_def select_rows_default_index)
qed

theorem select_anomalous_no_length_check_witness:
  "index_of (sample_anomalies 2) = map int [0..<length (sample_anomalies 2)]
   \<and> length (sample_anomalies 2) \<le> length (sample_transactions 3)
   \<and> select_anomalous (sample_transactions 3) (sample_anomalies 2) \<noteq> Inl IndexError
   \<and> select_anomalous (sample_transactions 3) (sample_anomalies 2)
       = Inr [(0, txn 0 ''NE'' (Timestamp 0))]"
proof -
  have i: "index_of (sample_anomalies 2) = map int [0..<length (sample_anomalies 2)]"
    by (rule index_of_sample_anomalies)
  have l: "length (sample_anomalies 2) \<le> length (sample_transactions 3)"
    by (simp add: sample_anomalies_def sample_transactions_def)
  have s: "spec_anomalous_subset (sample_transactions 3) (sample_anomalies 2)
             = [(0, txn 0 ''NE'' (Timestamp 0))]"
    by (simp add: spec_anomalous_subset_def sample_anomalies_def sample_transactions_def
        flagged_def numeral_2_eq_2 numeral_3_eq_3)
  from select_anomalous_no_length_check [of "sample_transactions 3" "sample_anomalies 2"] i l
  have "select_anomalous (sample_transactions 3) (sample_anomalies 2)
          = Inr (spec_anomalous_subset (sample_transactions 3) (sample_anomalies 2))"
    by blast
  with i l s show ?thesis by simp
qed

section \<open>The summary report\<close>

lemma select_rows_empty: "select_rows v T [] = Inr []"
  by (simp add: select_rows_def rows_where_def index_of_def iloc_def)

lemma select_anomalous_empty: "select_anomalous T [] = Inr []"
  by (simp add: select_anomalous_def select_rows_empty)


lemma select_rows_error: "select_rows v T A = Inl e \<Longrightarrow> e = IndexError"
  by (simp add: select_rows_def iloc_def Let_def split: if_splits)

lemma flagged_percentage_cases:
  "flagged_percentage A =
     (if A = [] then Inl ZeroDivisionError
      else Inr (real (anomaly_count A) / real (length A) * 100))"
  by (simp add: flagged_percentage_def truediv_def)

lemma summary_report_empty: "summary_report T [] regions = Inl ZeroDivisionError"
  by (simp add: summary_report_def flagged_percentage_cases)

lemma print_summary_statistics_empty:
  "anomaly_df tb = [] \<Longrightarrow> print_summary_statistics tb = (tb, Inl ZeroDivisionError)"
  by (simp add: print_summary_statistics_def Let_def reset_index_def select_anomalous_empty
      summary_report_empty)

lemma parse_cell_error: "parse_cell parse c = Inl e \<Longrightarrow> e = DateParseError"
  by (cases c) (auto split: option.splits)

lemma to_datetime_error: "to_datetime parse S = Inl e \<Longrightarrow> e = DateParseError"
proof (induction S)
  case Nil
  then show ?case by simp
next
  case (Cons x S)
  obtain l c where x: "x = (l, c)" by (cases x)
  from Cons show ?case
    by (auto simp: x split: sum.splits dest: parse_cell_error)
qed

lemma create_research_visualizations_vc_empty:
  assumes "anomaly_df tb = []"
  shows "snd (create_research_visualizations_vc parse tb) = Inl ZeroDivisionError
       \<or> snd (create_research_visualizations_vc parse tb) = Inl DateParseError"
proof (cases "to_datetime parse (column transaction_date (merged_df tb))")
  case (Inl e)
  then have "e = DateParseError" by (rule to_datetime_error)
  with Inl show ?thesis
    using assms
    by (simp add: create_research_visualizations_vc_def create_research_visualizations_def
        create_temporal_analysis_def temporal_buckets_def select_anomalous_empty)
next
  case (Inr dates)
  then show ?thesis
    using assms
    by (simp add: create_research_visualizations_vc_def create_research_visualizations_def
        create_temporal_analysis_def temporal_buckets_def select_anomalous_empty Let_def
        create_mcc_analysis_def summary_report_empty)
qed



text \<open>
  C10. The percentage of flagged rows is the anomaly count divided by \<open>len(anomaly_df)\<close>,
  without a guard: the division raises ZeroDivisionError exactly when \<open>anomaly_df\<close> is
  empty, and yields the percentage otherwise. On an empty \<open>anomaly_df\<close>
  \<^verbatim>\<open>print_summary_statistics\<close> reaches the division and fails there, and so does the report
  at the end of \<^verbatim>\<open>visualization_code.create_research_visualizations\<close> unless the dates
  failed to parse before.
\<close>

theorem flagged_percentage_unguarded:
  "(flagged_percentage A = Inl ZeroDivisionError \<longleftrightarrow> A = [])
   \<and> (A \<noteq> [] \<longrightarrow> flagged_percentage A = Inr (real (anomaly_count A) / real (length A) * 100))
   \<and> (A = [] \<longrightarrow>
        snd (print_summary_statistics \<lparr>merged_df = T, anomaly_df = A\<rparr>) = Inl ZeroDivisionError)
   \<and> (A = [] \<longrightarrow>
        snd (create_research_visualizations_vc parse \<lparr>merged_df = T, anomaly_df = A\<rparr>)
          \<in> {Inl ZeroDivisionError, Inl DateParseError})"
proof (intro conjI impI)
  show "flagged_percentage A = Inl ZeroDivisionError \<longleftrightarrow> A = []"
    by (simp add: flagged_percentage_cases)
next
  assume "A \<noteq> []"
  then show "flagged_percentage A = Inr (real (anomaly_count A) / real (length A) * 100)"
    by (simp add: flagged_percentage_cases)
next
  assume "A = []"
  then show "snd (print_summary_statistics \<lparr>merged_df = T, anomaly_df = A\<rparr>) = Inl ZeroDivisionError"
    by (simp add: print_summary_statistics_empty)
next
  assume "A = []"
  then have "anomaly_df \<lparr>merged_df = T, anomaly_df = A\<rparr> = []" by simp
  from create_research_visualizations_vc_empty [OF this, of parse]
  show "snd (create_research_visualizations_vc parse \<lparr>merged_df = T, anomaly_df = A\<rparr>)
          \<in> {Inl ZeroDivisionError, Inl DateParseError}"
    by blast
qed

theorem flagged_percentage_unguarded_witness:
  "flagged_percentage [] = Inl ZeroDivisionError
   \<and> snd (print_summary_statistics \<lparr>merged_df = sample_transactions 2, anomaly_df = []\<rparr>)
       = Inl ZeroDivisionError
   \<and> sample_anomalies 2 \<noteq> []
   \<and> flagged_percentage (sample_anomalies 2) = Inr 50"
proof -
  have ne: "sample_anomalies 2 \<noteq> []"
    by (simp add: sample_anomalies_def numeral_2_eq_2)
  have cnt: "anomaly_count (sample_anomalies 2) = 1" "length (sample_anomalies 2) = 2"
    by (simp_all add: anomaly_count_def rows_where_def sample_anomalies_def flagged_def numeral_2_eq_2)
  from flagged_percentage_unguarded [of "[]" "sample_transactions 2"]
  have a: "flagged_percentage [] = Inl ZeroDivisionError"
    and b: "snd (print_summary_statistics \<lparr>merged_df = sample_transactions 2, anomaly_df = []\<rparr>)
       = Inl ZeroDivisionError"
    by simp_all
  from flagged_percentage_unguarded [of "sample_anomalies 2"] ne
  have "flagged_percentage (sample_anomalies 2)
          = Inr (real (anomaly_count (sample_anomalies 2)) / real (length (sample_anomalies 2)) * 100)"
    by blast
  then have c: "flagged_percentage (sample_anomalies 2) = Inr 50"
    by (simp add: cnt)
  from a b ne c show ?thesis by simp
qed




section \<open>The largest amounts\<close>

lemma rows_where_conv: "rows_where p F = filter (\<lambda>x. p (snd x)) F"
  by (simp add: rows_where_def case_prod_unfold)

lemma nlargest_take: "nlargest n key F = take (nat n) (ordered_desc key F)"
  by (simp add: nlargest_def ordered_desc_def Let_def)

lemma mset_ordered_desc: "mset (ordered_desc key F) = mset F"
proof -
  have "mset (ordered_desc key F)
          = filter_mset (\<lambda>x. key (snd x) \<noteq> None) (mset F) + filter_mset (\<lambda>x. \<not> key (snd x) \<noteq> None) (mset F)"
    by (simp add: ordered_desc_def rows_where_conv del: not_None_eq)
  also have "\<dots> = mset F"
    by (rule multiset_partition [symmetric])
  finally show ?thesis .
qed

lemma length_ordered_desc: "length (ordered_desc key F) = length F"
  by (metis mset_ordered_desc size_mset)

lemma desc_key_le:
  "key (snd a) \<noteq> None \<Longrightarrow> key (snd b) \<noteq> None \<Longrightarrow>
   desc_key key a \<le> desc_key key b \<Longrightarrow> key (snd b) \<le> key (snd a)"
  by (cases a; cases b) (auto simp: desc_key_def)

lemma keyed_part: "x \<in> set (sort_key (desc_key key) (rows_where (\<lambda>r. key r \<noteq> None) F)) \<Longrightarrow> key (snd x) \<noteq> None"
  by (simp add: rows_where_conv del: not_None_eq)

lemma missing_part: "x \<in> set (rows_where (\<lambda>r. key r = None) F) \<Longrightarrow> key (snd x) = None"
  by (simp add: rows_where_conv)

lemma sorted_ordered_desc:
  "sorted_wrt (\<lambda>a b. key (snd b) \<le> key (snd a)) (ordered_desc key F)"
proof -
  let ?D = "sort_key (desc_key key) (rows_where (\<lambda>r. key r \<noteq> None) F)"
  let ?N = "rows_where (\<lambda>r. key r = None) F"
  have "sorted (map (desc_key key) ?D)" by (rule sorted_sort_key)
  then have s: "sorted_wrt (\<lambda>a b. desc_key key a \<le> desc_key key b) ?D"
    by (simp only: sorted_map)
  have 1: "sorted_wrt (\<lambda>a b. key (snd b) \<le> key (snd a)) ?D"
  proof (rule sorted_wrt_mono_rel [OF _ s])
    fix x y assume "x \<in> set ?D" "y \<in> set ?D" "desc_key key x \<le> desc_key key y"
    then show "key (snd y) \<le> key (snd x)"
      by (intro desc_key_le keyed_part)
  qed
  have 2: "sorted_wrt (\<lambda>a b. key (snd b) \<le> key (snd a)) ?N"
  proof (rule sorted_wrt_mono_rel [of _ "\<lambda>a b. True"])
    fix x y assume "y \<in> set ?N"
    then have "key (snd y) = None" by (rule missing_part)
    then show "key (snd y) \<le> key (snd x)" by simp
  next
    show "sorted_wrt (\<lambda>a b. True) ?N" by (induction ?N) simp_all
  qed
  have 3: "\<forall>x \<in> set ?D. \<forall>y \<in> set ?N. key (snd y) \<le> key (snd x)"
    using missing_part [of _ key F] by fastforce
  show ?thesis
    unfolding ordered_desc_def sorted_wrt_append using 1 2 3 by blast
qed


lemma stable_ordered_desc:
  "filter (\<lambda>x. key (snd x) = v) (ordered_desc key F) = filter (\<lambda>x. key (snd x) = v) F"
proof (cases v)
  case None
  let ?D = "sort_key (desc_key key) (rows_where (\<lambda>r. key r \<noteq> None) F)"
  have "\<forall>x \<in> set ?D. \<not> key (snd x) = None" using keyed_part by blast
  then have 1: "filter (\<lambda>x. key (snd x) = None) ?D = []" by (rule filter_False)
  have 2: "filter (\<lambda>x. key (snd x) = None) (rows_where (\<lambda>r. key r = None) F)
             = filter (\<lambda>x. key (snd x) = None) F"
    by (simp add: rows_where_conv)
  show ?thesis unfolding None ordered_desc_def filter_append 1 2 by simp
next
  case (Some a)
  let ?D = "rows_where (\<lambda>r. key r \<noteq> None) F"
  have eq: "filter (\<lambda>x. key (snd x) = Some a) xs = filter (\<lambda>x. desc_key key x = - a) xs"
    if "\<forall>x \<in> set xs. key (snd x) \<noteq> None" for xs
  proof (rule filter_cong [OF refl])
    fix x assume "x \<in> set xs"
    with that obtain b where "key (snd x) = Some b" by blast
    then show "(key (snd x) = Some a) = (desc_key key x = - a)"
      by (cases x) (simp add: desc_key_def)
  qed
  have D: "\<forall>x \<in> set ?D. key (snd x) \<noteq> None"
    by (simp add: rows_where_conv del: not_None_eq)
  have D': "\<forall>x \<in> set (sort_key (desc_key key) ?D). key (snd x) \<noteq> None"
    using keyed_part by blast
  have "filter (\<lambda>x. key (snd x) = Some a) (sort_key (desc_key key) ?D)
          = filter (\<lambda>x. desc_key key x = - a) (sort_key (desc_key key) ?D)"
    using D' by (rule eq)
  also have "\<dots> = filter (\<lambda>x. desc_key key x = - a) ?D" by (rule sort_key_stable)
  also have "\<dots> = filter (\<lambda>x. key (snd x) = Some a) ?D" using D by (rule eq [symmetric])
  also have "\<dots> = filter (\<lambda>x. key (snd x) = Some a) F"
    unfolding rows_where_conv filter_filter by (rule filter_cong) auto
  finally have 1: "filter (\<lambda>x. key (snd x) = Some a) (sort_key (desc_key key) ?D)
                     = filter (\<lambda>x. key (snd x) = Some a) F" .
  have "\<forall>x \<in> set (rows_where (\<lambda>r. key r = None) F). \<not> key (snd x) = Some a"
    using missing_part [of _ key F] by fastforce
  then have 2: "filter (\<lambda>x. key (snd x) = Some a) (rows_where (\<lambda>r. key r = None) F) = []"
    by (rule filter_False)
  show ?thesis unfolding Some ordered_desc_def filter_append 1 2 by simp
qed

lemma rows_where_append: "rows_where p (xs @ ys) = rows_where p xs @ rows_where p ys"
  by (simp add: rows_where_def)

lemma rows_where_all: "\<forall>x \<in> set xs. p (snd x) \<Longrightarrow> rows_where p xs = xs"
  unfolding rows_where_conv by (rule filter_True)

lemma rows_where_none: "\<forall>x \<in> set xs. \<not> p (snd x) \<Longrightarrow> rows_where p xs = []"
  unfolding rows_where_conv by (rule filter_False)

lemma ordered_desc_take:
  "ordered_desc key (take k (ordered_desc key F)) = take k (ordered_desc key F)"
proof -
  let ?D = "sort_key (desc_key key) (rows_where (\<lambda>r. key r \<noteq> None) F)"
  let ?N = "rows_where (\<lambda>r. key r = None) F"
  let ?D' = "take k ?D"
  let ?N' = "take (k - length ?D) ?N"
  have tk: "take k (ordered_desc key F) = ?D' @ ?N'"
    by (simp add: ordered_desc_def)
  have Dt: "\<forall>x \<in> set ?D'. key (snd x) \<noteq> None"
    using keyed_part in_set_takeD by fast
  have Nt: "\<forall>x \<in> set ?N'. key (snd x) = None"
    using missing_part in_set_takeD by fast
  have Nt': "\<forall>x \<in> set ?N'. \<not> key (snd x) \<noteq> None" using Nt by simp
  have Dt': "\<forall>x \<in> set ?D'. \<not> key (snd x) = None" using Dt by simp
  have p: "rows_where (\<lambda>r. key r \<noteq> None) (?D' @ ?N') = ?D'"
    by (simp only: rows_where_append rows_where_all [OF Dt] rows_where_none [OF Nt'] append_Nil2)
  have m: "rows_where (\<lambda>r. key r = None) (?D' @ ?N') = ?N'"
    by (simp only: rows_where_append rows_where_all [OF Nt] rows_where_none [OF Dt'] append_Nil)
  have "sorted (map (desc_key key) ?D)" by (rule sorted_sort_key)
  then have "sorted (take k (map (desc_key key) ?D))" by (rule sorted_wrt_take)
  then have "sorted (map (desc_key key) ?D')" by (simp only: take_map)
  then have s: "sort_key (desc_key key) ?D' = ?D'" by (rule sort_key_id_if_sorted)
  have "ordered_desc key (?D' @ ?N') = ?D' @ ?N'"
    unfolding ordered_desc_def [of key "?D' @ ?N'"] p m s ..
  then show ?thesis unfolding tk .
qed

lemma nlargest_idem: "nlargest n key (nlargest n key F) = nlargest n key F"
  by (simp add: nlargest_take ordered_desc_take)

lemma mset_take_subset: "mset (take n xs) \<subseteq># mset xs"
proof -
  have "mset xs = mset (take n xs) + mset (drop n xs)"
    by (simp flip: mset_append)
  then show ?thesis by (metis mset_subset_eq_add_left)
qed

lemma mset_minus_take: "mset xs - mset (take n xs) = mset (drop n xs)"
proof -
  have "mset xs = mset (take n xs) + mset (drop n xs)"
    by (simp flip: mset_append)
  then show ?thesis by (metis add_diff_cancel_left')
qed

lemma sorted_wrt_take_drop:
  assumes "sorted_wrt R xs" and "y \<in> set (take n xs)" and "x \<in> set (drop n xs)"
  shows "R y x"
proof -
  from assms(1) have "sorted_wrt R (take n xs @ drop n xs)" by simp
  with assms(2,3) show ?thesis unfolding sorted_wrt_append by blast
qed

text \<open>
  C6. \<open>top_k K S\<close> is \<^verbatim>\<open>S.nlargest(K, 'transaction amount')\<close>. It returns
  \<open>min(K, len(S))\<close> rows of \<open>S\<close>, in descending order of amount; every row left out has
  an amount no larger than every row returned; for each amount, the rows returned with
  that amount are the first rows of \<open>S\<close> with that amount, in their original order; and
  for \<open>K \<ge> len(S)\<close> all rows of \<open>S\<close> are returned. A missing amount counts as below
  every number. On the four transactions with amounts 10, 50, 30, 90 of which rows 1 and
  3 are flagged, the selection is rows 1 and 3 and its top-1 is the row with amount 90.
\<close>

theorem top_k_largest_stable:
  "length (top_k K S) = min (nat K) (length S)
   \<and> mset (top_k K S) \<subseteq># mset S
   \<and> sorted_wrt (\<lambda>a b. transaction_amount (snd b) \<le> transaction_amount (snd a)) (top_k K S)
   \<and> (\<forall>x \<in># mset S - mset (top_k K S). \<forall>y \<in> set (top_k K S).
         transaction_amount (snd x) \<le> transaction_amount (snd y))
   \<and> (\<forall>v. prefix (filter (\<lambda>x. transaction_amount (snd x) = v) (top_k K S))
                  (filter (\<lambda>x. transaction_amount (snd x) = v) S))
   \<and> (int (length S) \<le> K \<longrightarrow> mset (top_k K S) = mset S)
   \<and> select_anomalous example_transactions example_anomalies
        = Inr [(1, txn 50 ''SW'' (Timestamp 30)), (3, txn 90 ''MW'' (Timestamp 60))]
   \<and> top_k 1 [(1, txn 50 ''SW'' (Timestamp 30)), (3, txn 90 ''MW'' (Timestamp 60))]
        = [(3, txn 90 ''MW'' (Timestamp 60))]"
proof (intro conjI allI ballI impI)
  let ?L = "ordered_desc transaction_amount S"
  have t: "top_k K S = take (nat K) ?L" by (simp add: top_k_def nlargest_take)
  show "length (top_k K S) = min (nat K) (length S)"
    by (simp add: t length_ordered_desc min.commute)
  show "mset (top_k K S) \<subseteq># mset S"
    unfolding t using mset_take_subset [of "nat K" ?L] by (simp only: mset_ordered_desc)
  show "sorted_wrt (\<lambda>a b. transaction_amount (snd b) \<le> transaction_amount (snd a)) (top_k K S)"
    unfolding t by (rule sorted_wrt_take) (rule sorted_ordered_desc)
  show "prefix (filter (\<lambda>x. transaction_amount (snd x) = v) (top_k K S))
               (filter (\<lambda>x. transaction_amount (snd x) = v) S)" for v
  proof -
    have "prefix (filter (\<lambda>x. transaction_amount (snd x) = v) (take (nat K) ?L))
                 (filter (\<lambda>x. transaction_amount (snd x) = v) ?L)"
      by (rule filter_mono_prefix) (rule take_is_prefix)
    then show ?thesis by (simp only: t stable_ordered_desc)
  qed
  show "transaction_amount (snd x) \<le> transaction_amount (snd y)"
    if "x \<in># mset S - mset (top_k K S)" and "y \<in> set (top_k K S)" for x y
  proof -
    have "mset S - mset (top_k K S) = mset (drop (nat K) ?L)"
      unfolding t using mset_minus_take [of ?L "nat K"] by (simp only: mset_ordered_desc)
    with that(1) have x: "x \<in> set (drop (nat K) ?L)" by simp
    from that(2) have y: "y \<in> set (take (nat K) ?L)" by (simp only: t)
    from sorted_wrt_take_drop [OF sorted_ordered_desc y x] show ?thesis .
  qed
  show "mset (top_k K S) = mset S" if "int (length S) \<le> K"
  proof -
    from that have "length ?L \<le> nat K" by (simp add: length_ordered_desc)
    then have "take (nat K) ?L = ?L" by simp
    then show ?thesis by (simp only: t mset_ordered_desc)
  qed
  show "select_anomalous example_transactions example_anomalies
        = Inr [(1, txn 50 ''SW'' (Timestamp 30)), (3, txn 90 ''MW'' (Timestamp 60))]"
    by (simp add: example_transactions_def example_anomalies_def select_anomalous_def
        select_rows_def iloc_def index_of_def rows_where_def flagged_def)
  show "top_k 1 [(1, txn 50 ''SW'' (Timestamp 30)), (3, txn 90 ''MW'' (Timestamp 60))]
        = [(3, txn 90 ''MW'' (Timestamp 60))]"
    by (simp add: top_k_def nlargest_def rows_where_def desc_key_def txn_def)
qed

theorem top_k_largest_stable_witness:
  "int (length example_transactions) \<le> 10
   \<and> mset (top_k 10 example_transactions) = mset example_transactions
   \<and> length (top_k 1 example_transactions) = 1
   \<and> (3, txn 90 ''MW'' (Timestamp 60)) \<in> set (top_k 1 example_transactions)
   \<and> (1, txn 50 ''SW'' (Timestamp 30)) \<in># mset example_transactions - mset (top_k 1 example_transactions)
   \<and> transaction_amount (snd (1 :: int, txn 50 ''SW'' (Timestamp 30)))
        \<le> transaction_amount (snd (3 :: int, txn 90 ''MW'' (Timestamp 60)))"
proof -
  have l: "int (length example_transactions) \<le> 10"
    by (simp add: example_transactions_def)
  have e: "top_k 1 example_transactions = [(3, txn 90 ''MW'' (Timestamp 60))]"
    by (simp add: top_k_def nlargest_def rows_where_def desc_key_def txn_def example_transactions_def)
  from top_k_largest_stable [of 10 example_transactions] l
  have a: "mset (top_k 10 example_transactions) = mset example_transactions" by blast
  from top_k_largest_stable [of 1 example_transactions]
  have b: "length (top_k 1 example_transactions) = min (nat 1) (length example_transactions)"
    and c: "\<forall>x \<in># mset example_transactions - mset (top_k 1 example_transactions).
              \<forall>y \<in> set (top_k 1 example_transactions).
                transaction_amount (snd x) \<le> transaction_amount (snd y)"
    by blast+
  from b have b': "length (top_k 1 example_transactions) = 1"
    by (simp add: example_transactions_def)
  have m: "(3, txn 90 ''MW'' (Timestamp 60)) \<in> set (top_k 1 example_transactions)"
    by (simp add: e)
  have d: "(1, txn 50 ''SW'' (Timestamp 30)) \<in># mset example_transactions - mset (top_k 1 example_transactions)"
    unfolding e by (simp add: example_transactions_def txn_def)
  from c d m have c': "transaction_amount (snd (1 :: int, txn 50 ''SW'' (Timestamp 30)))
        \<le> transaction_amount (snd (3 :: int, txn 90 ''MW'' (Timestamp 60)))"
    by blast
  from l a b' m d c' show ?thesis by blast
qed

text \<open>
  C9. Taking the top \<open>K\<close> of the top \<open>K\<close> changes nothing: the same rows in the same
  order, for every table and every \<open>K\<close>.
\<close>

theorem top_k_idempotent: "top_k K (top_k K S) = top_k K S"
  unfolding top_k_def by (rule nlargest_idem)

section \<open>Counting categories\<close>

lemma first_occurrences_Nil: "first_occurrences [] = []"
  by (simp add: first_occurrences_def)

lemma remdups_snoc: "remdups (ys @ [x]) = filter (\<lambda>y. y \<noteq> x) (remdups ys) @ [x]"
  by (induction ys) auto

lemma first_occurrences_Cons:
  "first_occurrences (x # xs) = x # filter (\<lambda>y. y \<noteq> x) (first_occurrences xs)"
  by (simp add: first_occurrences_def remdups_snoc rev_filter)

lemma set_first_occurrences: "set (first_occurrences xs) = set xs"
  by (simp add: first_occurrences_def)

lemma distinct_first_occurrences: "distinct (first_occurrences xs)"
  by (simp add: first_occurrences_def)

lemma first_index_Cons:
  "first_index (x # xs) v = (if v = x then 0 else Suc (first_index xs v))"
  by (auto simp: first_index_def)

lemma sorted_first_occurrences:
  "sorted_wrt (\<lambda>a b. first_index xs a < first_index xs b) (first_occurrences xs)"
proof (induction xs)
  case Nil
  then show ?case by (simp add: first_occurrences_Nil)
next
  case (Cons x xs)
  have "sorted_wrt (\<lambda>a b. first_index xs a < first_index xs b) (filter (\<lambda>y. y \<noteq> x) (first_occurrences xs))"
    using Cons.IH by (rule sorted_wrt_filter)
  then have "sorted_wrt (\<lambda>a b. first_index (x # xs) a < first_index (x # xs) b)
               (filter (\<lambda>y. y \<noteq> x) (first_occurrences xs))"
    by (rule sorted_wrt_mono_rel [rotated]) (auto simp: first_index_Cons)
  then show ?case
    by (auto simp: first_occurrences_Cons first_index_Cons)
qed

lemma insort_key_stable:
  assumes "sorted_wrt Q ys" and "\<forall>y \<in> set ys. Q x y" and "\<And>y. f y < f x \<Longrightarrow> Q y x"
  shows "sorted_wrt Q (insort_key f x ys)"
  using assms(1,2)
proof (induction ys)
  case Nil
  then show ?case by simp
next
  case (Cons y ys)
  show ?case
  proof (cases "f x \<le> f y")
    case True
    with Cons.prems show ?thesis by simp
  next
    case False
    then have "f y < f x" by simp
    then have "Q y x" by (rule assms(3))
    with Cons False show ?thesis by (auto simp: set_insort_key)
  qed
qed

lemma sort_key_stable_wrt:
  "sorted_wrt R xs \<Longrightarrow> sorted_wrt (\<lambda>a b. f a = f b \<longrightarrow> R a b) (sort_key f xs)"
proof (induction xs)
  case Nil
  then show ?case by simp
next
  case (Cons x xs)
  then have ih: "sorted_wrt (\<lambda>a b. f a = f b \<longrightarrow> R a b) (sort_key f xs)" by simp
  from Cons.prems have "\<forall>y \<in> set (sort_key f xs). f x = f y \<longrightarrow> R x y" by simp
  with ih show ?case
    by (simp del: insort_key.simps) (rule insort_key_stable, auto)
qed

lemma sum_counts_distinct:
  "distinct ks \<Longrightarrow> set ks = set vs \<Longrightarrow> sum_list (map (count_list vs) ks) = length vs"
  by (simp add: sum_list_distinct_conv_sum_set sum_count_set)

lemma length_present: "length (present S) = length (filter (\<lambda>x. snd x \<noteq> None) S)"
  by (induction S) (auto simp: present_def split: option.splits)



lemma value_counts_eq:
  "value_counts S =
     sort_key (\<lambda>(v, c). - int c) (map (\<lambda>v. (v, count_list (present S) v)) (first_occurrences (present S)))"
  unfolding value_counts_def Let_def ..

lemma mset_value_counts:
  "mset (value_counts S) = mset (map (\<lambda>v. (v, count_list (present S) v)) (first_occurrences (present S)))"
  unfolding value_counts_eq by (rule mset_sort)

lemma map_fst_pairs: "map fst (map (\<lambda>v. (v, g v)) xs) = xs"
  by (induction xs) simp_all

lemma map_snd_pairs: "map snd (map (\<lambda>v. (v, g v)) xs) = map g xs"
  by (induction xs) simp_all

lemma mset_values_value_counts:
  "mset (map fst (value_counts S)) = mset (first_occurrences (present S))"
proof -
  have "mset (map fst (value_counts S))
          = mset (map fst (map (\<lambda>v. (v, count_list (present S) v)) (first_occurrences (present S))))"
    by (simp only: mset_map mset_value_counts)
  then show ?thesis by (simp only: map_fst_pairs)
qed

lemma distinct_value_counts: "distinct (map fst (value_counts S))"
proof -
  have "distinct (map fst (value_counts S)) = distinct (first_occurrences (present S))"
    by (rule mset_eq_imp_distinct_iff) (rule mset_values_value_counts)
  then show ?thesis by (simp only: distinct_first_occurrences)
qed

lemma set_value_counts: "set (map fst (value_counts S)) = set (present S)"
proof -
  have "set (map fst (value_counts S)) = set (first_occurrences (present S))"
    by (rule mset_eq_setD) (rule mset_values_value_counts)
  then show ?thesis by (simp only: set_first_occurrences)
qed


lemma count_value_counts:
  assumes "p \<in> set (value_counts S)"
  shows "snd p = count_list (present S) (fst p)"
proof -
  from assms have "p \<in> set (map (\<lambda>v. (v, count_list (present S) v)) (first_occurrences (present S)))"
    by (simp only: value_counts_eq set_sort)
  then obtain v where "p = (v, count_list (present S) v)"
    unfolding set_map by blast
  then show ?thesis by simp
qed

lemma sorted_value_counts: "sorted_wrt (\<lambda>a b. snd b \<le> snd a) (value_counts S)"
proof -
  let ?f = "\<lambda>(v :: 'a, c :: nat). - int c"
  have "sorted (map ?f (value_counts S))"
    unfolding value_counts_eq by (rule sorted_sort_key)
  then have s: "sorted_wrt (\<lambda>a b. ?f a \<le> ?f b) (value_counts S)"
    by (simp only: sorted_map)
  show ?thesis
  proof (rule sorted_wrt_mono_rel [OF _ s])
    fix a b :: "'a \<times> nat"
    assume "?f a \<le> ?f b"
    then show "snd b \<le> snd a" by (cases a; cases b) simp
  qed
qed

lemma ties_value_counts:
  "sorted_wrt (\<lambda>a b. snd a = snd b \<longrightarrow> first_index (present S) (fst a) < first_index (present S) (fst b))
     (value_counts S)"
proof -
  let ?f = "\<lambda>(v :: 'a, c :: nat). - int c"
  let ?vs = "present S"
  let ?L = "map (\<lambda>v. (v, count_list ?vs v)) (first_occurrences ?vs)"
  let ?R = "\<lambda>a b :: 'a \<times> nat. first_index ?vs (fst a) < first_index ?vs (fst b)"
  have "sorted_wrt (\<lambda>a b. first_index ?vs a < first_index ?vs b) (map fst ?L)"
    by (simp only: map_fst_pairs sorted_first_occurrences)
  then have "sorted_wrt ?R ?L" by (simp only: sorted_wrt_map)
  then have s: "sorted_wrt (\<lambda>a b. ?f a = ?f b \<longrightarrow> ?R a b) (value_counts S)"
    unfolding value_counts_eq by (rule sort_key_stable_wrt)
  show ?thesis
  proof (rule sorted_wrt_mono_rel [OF _ s], rule impI)
    fix a b :: "'a \<times> nat"
    assume h: "?f a = ?f b \<longrightarrow> ?R a b" and e: "snd a = snd b"
    from e have "?f a = ?f b" by (cases a; cases b) simp
    with h show "?R a b" by (rule mp)
  qed
qed

lemma sum_value_counts: "sum_list (map snd (value_counts S)) = length (present S)"
proof -
  let ?vs = "present S"
  let ?L = "map (\<lambda>v. (v, count_list ?vs v)) (first_occurrences ?vs)"
  have "sum_list (map snd (value_counts S)) = sum_mset (mset (map snd (value_counts S)))"
    by (rule sum_mset_sum_list [symmetric])
  also have "\<dots> = sum_mset (mset (map snd ?L))"
    by (simp only: mset_map mset_value_counts)
  also have "\<dots> = sum_list (map snd ?L)" by (rule sum_mset_sum_list)
  also have "\<dots> = sum_list (map (count_list ?vs) (first_occurrences ?vs))"
    by (simp only: map_snd_pairs)
  also have "\<dots> = length ?vs"
    by (rule sum_counts_distinct [OF distinct_first_occurrences set_first_occurrences])
  finally show ?thesis .
qed

lemma sum_value_counts_present:
  "(\<forall>x \<in> set C. snd x \<noteq> None) \<Longrightarrow> sum_list (map snd (value_counts C)) = length C"
proof -
  assume "\<forall>x \<in> set C. snd x \<noteq> None"
  then have "filter (\<lambda>x. snd x \<noteq> None) C = C" by (rule filter_True)
  then show ?thesis by (simp only: sum_value_counts length_present)
qed

text \<open>
  C7, as stated, fails: \<^verbatim>\<open>value_counts()\<close> leaves out the rows whose value is missing. On
  two rows of which one has no region the counts sum to 1, not to 2.
\<close>

theorem value_counts_drops_missing:
  "length region_missing = 2
   \<and> value_counts (column region region_missing) = [(''NE'', 1)]
   \<and> sum_list (map snd (value_counts (column region region_missing))) = 1"
  by (simp add: region_missing_def column_def value_counts_def present_def first_occurrences_def
      txn_def)

text \<open>
  C7, amended. \<open>value_counts C\<close> lists every distinct non-missing value of the series
  once, with the number of its occurrences; the pairs are in descending order of count,
  and of two values with the same count the one that occurs first in the series comes
  first; \<open>head N\<close> keeps the first \<open>N\<close> pairs. The counts of the untruncated sequence sum
  to the number of rows whose value is not missing, which is the number of rows when none
  is missing. \<^verbatim>\<open>create_mcc_analysis\<close> returns the first ten pairs for the category
  descriptions of the selected rows, \<^verbatim>\<open>create_research_visualizations\<close> all pairs for
  their regions.
\<close>

theorem value_counts_sorted_sum:
  "distinct (map fst (value_counts C))
   \<and> set (map fst (value_counts C)) = set (present C)
   \<and> (\<forall>p \<in> set (value_counts C). snd p = count_list (present C) (fst p))
   \<and> sorted_wrt (\<lambda>a b. snd b \<le> snd a) (value_counts C)
   \<and> sorted_wrt (\<lambda>a b. snd a = snd b \<longrightarrow>
                     first_index (present C) (fst a) < first_index (present C) (fst b))
        (value_counts C)
   \<and> head N (value_counts C) = take N (value_counts C)
   \<and> sum_list (map snd (value_counts C)) = length (filter (\<lambda>x. snd x \<noteq> None) C)
   \<and> ((\<forall>x \<in> set C. snd x \<noteq> None) \<longrightarrow> sum_list (map snd (value_counts C)) = length C)
   \<and> (select_anomalous T A = Inr S \<longrightarrow>
         snd (create_mcc_analysis \<lparr>merged_df = T, anomaly_df = A\<rparr>)
           = Inr (take 10 (value_counts (column mcc_description S))))
   \<and> (select_anomalous T A = Inr S \<longrightarrow>
         map_sum id region_anomalies (snd (create_research_visualizations \<lparr>merged_df = T, anomaly_df = A\<rparr>))
           = Inr (value_counts (column region S)))"
proof (intro conjI impI ballI)
  show "distinct (map fst (value_counts C))" by (rule distinct_value_counts)
  show "set (map fst (value_counts C)) = set (present C)" by (rule set_value_counts)
  show "snd p = count_list (present C) (fst p)" if "p \<in> set (value_counts C)" for p
    using that by (rule count_value_counts)
  show "sorted_wrt (\<lambda>a b. snd b \<le> snd a) (value_counts C)" by (rule sorted_value_counts)
  show "sorted_wrt (\<lambda>a b. snd a = snd b \<longrightarrow>
                     first_index (present C) (fst a) < first_index (present C) (fst b))
        (value_counts C)"
    by (rule ties_value_counts)
  show "head N (value_counts C) = take N (value_counts C)" by (simp add: head_def)
  show "sum_list (map snd (value_counts C)) = length (filter (\<lambda>x. snd x \<noteq> None) C)"
    by (simp only: sum_value_counts length_present)
  show "sum_list (map snd (value_counts C)) = length C" if "\<forall>x \<in> set C. snd x \<noteq> None"
    using that by (rule sum_value_counts_present)
  show "snd (create_mcc_analysis \<lparr>merged_df = T, anomaly_df = A\<rparr>)
           = Inr (take 10 (value_counts (column mcc_description S)))"
    if "select_anomalous T A = Inr S"
    using that by (simp add: create_mcc_analysis_def head_def)
  show "map_sum id region_anomalies (snd (create_research_visualizations \<lparr>merged_df = T, anomaly_df = A\<rparr>))
           = Inr (value_counts (column region S))"
    if "select_anomalous T A = Inr S"
    using that by (simp add: create_research_visualizations_def)
qed

theorem value_counts_sorted_sum_witness:
  "value_counts (column region example_transactions) = [(''NE'', 2), (''SW'', 1), (''MW'', 1)]
   \<and> sum_list (map snd (value_counts (column region example_transactions)))
        = length (column region example_transactions)
   \<and> select_anomalous example_transactions example_anomalies
        = Inr [(1, txn 50 ''SW'' (Timestamp 30)), (3, txn 90 ''MW'' (Timestamp 60))]
   \<and> snd (create_mcc_analysis \<lparr>merged_df = example_transactions, anomaly_df = example_anomalies\<rparr>)
        = Inr [(''OFFICE'', 2)]"
proof -
  let ?S = "[(1, txn 50 ''SW'' (Timestamp 30)), (3, txn 90 ''MW'' (Timestamp 60))]"
  have v: "value_counts (column region example_transactions) = [(''NE'', 2), (''SW'', 1), (''MW'', 1)]"
    by (simp add: example_transactions_def column_def value_counts_def present_def
        first_occurrences_def txn_def)
  have p: "\<forall>x \<in> set (column region example_transactions). snd x \<noteq> None"
    by (simp add: example_transactions_def column_def txn_def)
  have s: "select_anomalous example_transactions example_anomalies = Inr ?S"
    by (simp add: example_transactions_def example_anomalies_def select_anomalous_def
        select_rows_def iloc_def index_of_def rows_where_def flagged_def)
  have m: "take 10 (value_counts (column mcc_description ?S)) = [(''OFFICE'', 2)]"
    by (simp add: column_def value_counts_def present_def first_occurrences_def txn_def)
  note t = value_counts_sorted_sum [of "column region example_transactions" 10
             example_transactions example_anomalies ?S]
  from t p have a: "sum_list (map snd (value_counts (column region example_transactions)))
        = length (column region example_transactions)"
    by blast
  from t s have "snd (create_mcc_analysis \<lparr>merged_df = example_transactions, anomaly_df = example_anomalies\<rparr>)
        = Inr (take 10 (value_counts (column mcc_description ?S)))"
    by blast
  then have b: "snd (create_mcc_analysis \<lparr>merged_df = example_transactions, anomaly_df = example_anomalies\<rparr>)
        = Inr [(''OFFICE'', 2)]"
    by (simp only: m)
  from v a s b show ?thesis by blast
qed

section \<open>Binning values\<close>

lemma length_bin_counts: "length (bin_counts rng n xs) = n"
  by (simp add: bin_counts_def)

lemma length_bin_edges: "length (bin_edges rng n) = Suc n"
  by (simp add: bin_edges_def)

lemma nth_bin_edges:
  "k \<le> n \<Longrightarrow> bin_edges rng n ! k = fst rng + real k * (snd rng - fst rng) / real n"
proof -
  assume "k \<le> n"
  then have "k < length [0..<Suc n]" by simp
  then have "map (\<lambda>k. fst rng + real k * (snd rng - fst rng) / real n) [0..<Suc n] ! k
               = fst rng + real ([0..<Suc n] ! k) * (snd rng - fst rng) / real n"
    by (rule nth_map)
  moreover have "[0..<Suc n] ! k = k" using \<open>k \<le> n\<close> by (metis add_0 less_Suc_eq_le nth_upt)
  ultimately show ?thesis by (simp only: bin_edges_def)
qed

lemma hd_bin_edges: "hd (bin_edges rng n) = fst rng"
proof -
  have "hd (bin_edges rng n) = bin_edges rng n ! 0"
    by (rule hd_conv_nth) (simp add: bin_edges_def)
  then show ?thesis by (simp add: nth_bin_edges)
qed

lemma last_bin_edges: "0 < n \<Longrightarrow> last (bin_edges rng n) = snd rng"
proof -
  assume n: "0 < n"
  have "last (bin_edges rng n) = bin_edges rng n ! (length (bin_edges rng n) - 1)"
    by (rule last_conv_nth) (simp add: bin_edges_def)
  then have "last (bin_edges rng n) = bin_edges rng n ! n" by (simp add: length_bin_edges)
  with n show ?thesis by (simp add: nth_bin_edges)
qed

lemma width_bin_edges:
  "k < n \<Longrightarrow> bin_edges rng n ! Suc k - bin_edges rng n ! k = (snd rng - fst rng) / real n"
  by (simp add: nth_bin_edges field_simps)

lemma bin_range_props:
  assumes "xs \<noteq> []"
  shows "fst (bin_range xs) < snd (bin_range xs)"
    and "\<forall>x \<in> set xs. fst (bin_range xs) \<le> x \<and> x \<le> snd (bin_range xs)"
proof -
  have f: "finite (set xs)" and ne: "set xs \<noteq> {}" using assms by simp_all
  from assms obtain y where y: "y \<in> set xs" by (cases xs) auto
  have "Min (set xs) \<le> y" "y \<le> Max (set xs)" using f y by simp_all
  then have le: "Min (set xs) \<le> Max (set xs)" by (rule order_trans)
  show "fst (bin_range xs) < snd (bin_range xs)"
    using le by (simp add: bin_range_def Let_def)
  show "\<forall>x \<in> set xs. fst (bin_range xs) \<le> x \<and> x \<le> snd (bin_range xs)"
  proof
    fix x assume x: "x \<in> set xs"
    have "Min (set xs) \<le> x" "x \<le> Max (set xs)" using f x by simp_all
    then show "fst (bin_range xs) \<le> x \<and> x \<le> snd (bin_range xs)"
      by (simp add: bin_range_def Let_def)
  qed
qed

lemma bin_range_spans:
  "bin_range xs = (if Min (set xs) = Max (set xs) then (Min (set xs) - 1 / 2, Max (set xs) + 1 / 2)
                   else (Min (set xs), Max (set xs)))"
  by (simp add: bin_range_def Let_def)


lemma bin_index_bounds:
  assumes n: "0 < n" and r: "fst rng < snd rng" and x: "fst rng \<le> x" "x \<le> snd rng"
  shows "bin_index rng n x < n"
    and "bin_edges rng n ! bin_index rng n x \<le> x"
    and "x \<le> bin_edges rng n ! Suc (bin_index rng n x)"
    and "x < bin_edges rng n ! Suc (bin_index rng n x) \<or> x = snd rng"
proof -
  define w where "w = snd rng - fst rng"
  define t where "t = (x - fst rng) / w * real n"
  define i where "i = nat \<lfloor>t\<rfloor>"
  have w: "0 < w" using r by (simp add: w_def)
  have t0: "0 \<le> t" using w x n by (simp add: t_def w_def)
  have "(x - fst rng) / w \<le> 1" using w x by (simp add: w_def)
  then have "(x - fst rng) / w * real n \<le> 1 * real n"
    by (rule mult_right_mono) simp
  then have tn: "t \<le> real n" by (simp add: t_def)
  have it: "real i \<le> t" using t0 by (simp add: i_def)
  have ti: "t < real i + 1" using t0 unfolding i_def by linarith
  have i_le: "i \<le> n" using it tn by linarith
  have b: "bin_index rng n x = (if i = n then n - 1 else i)"
    by (simp add: bin_index_def Let_def i_def t_def w_def)
  have xt: "x = fst rng + t * w / real n"
    using w n by (simp add: t_def)
  have e: "\<And>k. k \<le> n \<Longrightarrow> bin_edges rng n ! k = fst rng + real k * w / real n"
    by (simp add: nth_bin_edges w_def)
  have pos: "0 < w / real n" using w n by simp
  have lower: "bin_edges rng n ! k \<le> x" if "k \<le> n" "real k \<le> t" for k
  proof -
    have "real k * (w / real n) \<le> t * (w / real n)"
      using that(2) pos by (intro mult_right_mono) simp_all
    then have "fst rng + real k * w / real n \<le> fst rng + t * w / real n" by simp
    then show ?thesis by (simp only: e [OF that(1)] xt [symmetric])
  qed
  have upper: "x \<le> bin_edges rng n ! k" if "k \<le> n" "t \<le> real k" for k
  proof -
    have "t * (w / real n) \<le> real k * (w / real n)"
      using that(2) pos by (intro mult_right_mono) simp_all
    then have "fst rng + t * w / real n \<le> fst rng + real k * w / real n" by simp
    then show ?thesis by (simp only: e [OF that(1)] xt [symmetric])
  qed
  have strict: "x < bin_edges rng n ! k" if "k \<le> n" "t < real k" for k
  proof -
    have "t * (w / real n) < real k * (w / real n)"
      using that(2) pos by (intro mult_strict_right_mono) simp_all
    then have "fst rng + t * w / real n < fst rng + real k * w / real n" by simp
    then show ?thesis by (simp only: e [OF that(1)] xt [symmetric])
  qed
  show "bin_index rng n x < n" using i_le n by (simp add: b)
  show "bin_edges rng n ! bin_index rng n x \<le> x"
  proof (cases "i = n")
    case True
    have "real (n - 1) \<le> t" using it True by simp
    then have "bin_edges rng n ! (n - 1) \<le> x" by (intro lower) simp_all
    then show ?thesis using True by (simp add: b)
  next
    case False
    have "bin_edges rng n ! i \<le> x" using i_le it by (rule lower)
    then show ?thesis using False by (simp add: b)
  qed
  show "x \<le> bin_edges rng n ! Suc (bin_index rng n x)"
  proof (cases "i = n")
    case True
    have "x \<le> bin_edges rng n ! n" using tn by (intro upper) simp_all
    moreover have "Suc (n - 1) = n" using n by simp
    ultimately show ?thesis using True by (simp add: b)
  next
    case False
    then have "Suc i \<le> n" using i_le by simp
    moreover have "t \<le> real (Suc i)" using ti by simp
    ultimately have "x \<le> bin_edges rng n ! Suc i" by (rule upper)
    then show ?thesis using False by (simp add: b)
  qed
  show "x < bin_edges rng n ! Suc (bin_index rng n x) \<or> x = snd rng"
  proof (cases "i = n")
    case True
    then have "t = real n" using it tn by simp
    then have "x = snd rng" using w n by (simp add: xt w_def)
    then show ?thesis ..
  next
    case False
    then have "Suc i \<le> n" using i_le by simp
    moreover have "t < real (Suc i)" using ti by simp
    ultimately have "x < bin_edges rng n ! Suc i" by (rule strict)
    then have "x < bin_edges rng n ! Suc (bin_index rng n x)" using False by (simp add: b)
    then show ?thesis ..
  qed
qed

lemma sum_indicator:
  "k < n \<Longrightarrow> sum_list (map (\<lambda>b. if k = b then 1 else 0) [0..<n]) = (1 :: nat)"
proof -
  assume "k < n"
  have "sum_list (map (\<lambda>b. if k = b then 1 else 0) [0..<n]) = (\<Sum>b \<in> {0..<n}. if k = b then 1 else (0 :: nat))"
    by (simp add: interv_sum_list_conv_sum_set_nat)
  also have "\<dots> = 1" using \<open>k < n\<close> by simp
  finally show ?thesis .
qed

lemma sum_counts_by_index:
  "\<forall>x \<in> set xs. g x < n \<Longrightarrow>
   sum_list (map (\<lambda>b. length (filter (\<lambda>x. g x = b) xs)) [0..<n]) = length xs"
proof (induction xs)
  case Nil
  then show ?case by simp
next
  case (Cons x xs)
  then have gx: "g x < n" and rest: "\<forall>y \<in> set xs. g y < n" by simp_all
  have "map (\<lambda>b. length (filter (\<lambda>y. g y = b) (x # xs))) [0..<n]
          = map (\<lambda>b. (if g x = b then 1 else 0) + length (filter (\<lambda>y. g y = b) xs)) [0..<n]"
    by (rule map_cong) auto
  then have "sum_list (map (\<lambda>b. length (filter (\<lambda>y. g y = b) (x # xs))) [0..<n])
          = sum_list (map (\<lambda>b. if g x = b then 1 else 0) [0..<n])
            + sum_list (map (\<lambda>b. length (filter (\<lambda>y. g y = b) xs)) [0..<n])"
    by (simp only: sum_list_addf)
  then show ?case by (simp only: sum_indicator [OF gx] Cons.IH [OF rest]) simp
qed

lemma sum_bin_counts:
  assumes "0 < n" and "xs \<noteq> []"
  shows "sum_list (bin_counts (bin_range xs) n xs) = length xs"
proof -
  have "\<forall>x \<in> set xs. bin_index (bin_range xs) n x < n"
    using bin_index_bounds(1) [OF assms(1) bin_range_props(1) [OF assms(2)]]
      bin_range_props(2) [OF assms(2)] by blast
  then show ?thesis unfolding bin_counts_def by (rule sum_counts_by_index)
qed

lemma single_bin:
  assumes "xs \<noteq> []"
  shows "bin_counts (bin_range xs) 1 xs = [length xs]"
proof -
  have "length (bin_counts (bin_range xs) 1 xs) = 1" by (rule length_bin_counts)
  then obtain c where c: "bin_counts (bin_range xs) 1 xs = [c]"
    by (cases "bin_counts (bin_range xs) 1 xs") auto
  from sum_bin_counts [OF _ assms, of 1] have "sum_list (bin_counts (bin_range xs) 1 xs) = length xs"
    by simp
  with c show ?thesis by simp
qed

section \<open>The temporal histogram and the tables\<close>

lemma to_datetime_parsed:
  "to_datetime parse (column transaction_date T) = Inr D \<Longrightarrow>
   dates_parsed parse T (set_transaction_date T D)"
proof (induction T arbitrary: D)
  case Nil
  then show ?case by (simp add: dates_parsed_def set_transaction_date_def column_def)
next
  case (Cons x T)
  obtain l r where x: "x = (l, r)" by (cases x)
  from Cons.prems obtain c D' where c: "parse_cell parse (transaction_date r) = Inr c"
    and D': "to_datetime parse (column transaction_date T) = Inr D'" and D: "D = (l, c) # D'"
    by (auto simp: x column_def split: sum.splits)
  from Cons.IH [OF D'] have "dates_parsed parse T (set_transaction_date T D')" .
  then show ?case
    by (simp add: dates_parsed_def set_transaction_date_def x D c)
qed

lemma temporal_buckets_tables:
  "fst (temporal_buckets bins parse tb) =
     (case to_datetime parse (column transaction_date (merged_df tb)) of
        Inl e \<Rightarrow> tb
      | Inr D \<Rightarrow> tb\<lparr>merged_df := set_transaction_date (merged_df tb) D\<rparr>)"
  by (simp add: temporal_buckets_def Let_def split: sum.splits)

lemma parse_cell_Inl:
  "(\<exists>e. parse_cell parse c = Inl e) \<longleftrightarrow> (\<exists>s. c = DateText s \<and> parse s = None)"
  by (cases c) (auto split: option.splits)

lemma to_datetime_Inl:
  "(\<exists>e. to_datetime parse S = Inl e) \<longleftrightarrow> (\<exists>x \<in> set S. \<exists>s. snd x = DateText s \<and> parse s = None)"
proof (induction S)
  case Nil
  then show ?case by simp
next
  case (Cons x S)
  obtain l c where x: "x = (l, c)" by (cases x)
  have "(\<exists>e. to_datetime parse ((l, c) # S) = Inl e)
          \<longleftrightarrow> (\<exists>e. parse_cell parse c = Inl e) \<or> (\<exists>e. to_datetime parse S = Inl e)"
    by (auto split: sum.splits)
  then show ?case unfolding x Cons.IH parse_cell_Inl by auto
qed

lemma unparseable_column:
  "(\<exists>x \<in> set (column transaction_date T). \<exists>s. snd x = DateText s \<and> parse s = None)
     \<longleftrightarrow> (\<exists>x \<in> set T. \<exists>s. transaction_date (snd x) = DateText s \<and> parse s = None)"
  by (simp add: column_def case_prod_unfold)

lemma temporal_buckets_parse_error:
  "snd (temporal_buckets bins parse tb) = Inl DateParseError \<longleftrightarrow>
     (\<exists>x \<in> set (merged_df tb). \<exists>s. transaction_date (snd x) = DateText s \<and> parse s = None)"
proof (cases "to_datetime parse (column transaction_date (merged_df tb))")
  case (Inl e)
  then have e: "e = DateParseError" by (rule to_datetime_error)
  have "\<exists>e. to_datetime parse (column transaction_date (merged_df tb)) = Inl e" using Inl by blast
  then have "\<exists>x \<in> set (merged_df tb). \<exists>s. transaction_date (snd x) = DateText s \<and> parse s = None"
    by (simp only: to_datetime_Inl unparseable_column)
  moreover have "snd (temporal_buckets bins parse tb) = Inl DateParseError"
    using Inl e by (simp add: temporal_buckets_def)
  ultimately show ?thesis by simp
next
  case (Inr D)
  then have "\<not> (\<exists>e. to_datetime parse (column transaction_date (merged_df tb)) = Inl e)" by simp
  then have n: "\<not> (\<exists>x \<in> set (merged_df tb). \<exists>s. transaction_date (snd x) = DateText s \<and> parse s = None)"
    unfolding to_datetime_Inl unparseable_column .
  have "snd (temporal_buckets bins parse tb) \<noteq> Inl DateParseError"
    using Inr by (auto simp: temporal_buckets_def Let_def select_anomalous_def split: sum.splits
        dest: select_rows_error)
  with n show ?thesis by simp
qed

lemma parse_cell_timestamp: "parse_cell parse c = Inr c' \<Longrightarrow> \<exists>t. c' = Timestamp t"
  by (cases c) (auto split: option.splits)

lemma dates_parsed_timestamps:
  "dates_parsed parse T T' \<Longrightarrow> \<forall>x \<in> set T'. \<exists>t. transaction_date (snd x) = Timestamp t"
  unfolding dates_parsed_def
proof (induction rule: list_all2_induct)
  case Nil
  then show ?case by simp
next
  case (Cons x xs y ys)
  obtain l r l' r' where x: "x = (l, r)" and y: "y = (l', r')" by (cases x; cases y)
  from Cons(1) obtain c where "parse_cell parse (transaction_date r) = Inr c"
    and "r' = r\<lparr>transaction_date := c\<rparr>"
    by (auto simp: x y split: sum.splits)
  then have "\<exists>t. transaction_date r' = Timestamp t"
    using parse_cell_timestamp by fastforce
  with Cons(3) show ?case by (simp add: y)
qed

lemma iloc_subset: "iloc F idx = Inr S \<Longrightarrow> set S \<subseteq> set F"
proof -
  assume a: "iloc F idx = Inr S"
  then have r: "\<forall>i \<in> set idx. - int (length F) \<le> i \<and> i < int (length F)"
    and S: "S = map (\<lambda>i. F ! nat (if i < 0 then int (length F) + i else i)) idx"
    by (simp_all add: iloc_cases split: if_splits)
  show ?thesis
  proof
    fix x assume "x \<in> set S"
    then obtain i where i: "i \<in> set idx" and x: "x = F ! nat (if i < 0 then int (length F) + i else i)"
      unfolding S by auto
    from r i have "nat (if i < 0 then int (length F) + i else i) < length F" by auto
    then show "x \<in> set F" unfolding x by (rule nth_mem)
  qed
qed

lemma length_numeric_dates:
  "\<forall>x \<in> set S. \<exists>t. transaction_date (snd x) = Timestamp t \<Longrightarrow>
   length (numeric_dates (column transaction_date S)) = length S"
  by (induction S) (auto simp: numeric_dates_def column_def)

lemma temporal_buckets_result:
  assumes "snd (temporal_buckets bins parse tb) \<noteq> Inl DateParseError"
    and "select_anomalous (merged_df (fst (temporal_buckets bins parse tb))) (anomaly_df tb) = Inr S"
  shows "snd (temporal_buckets bins parse tb) = Inr (histplot (numeric_dates (column transaction_date S)) bins)"
    and "length (numeric_dates (column transaction_date S)) = length S"
proof -
  obtain D where D: "to_datetime parse (column transaction_date (merged_df tb)) = Inr D"
  proof (cases "to_datetime parse (column transaction_date (merged_df tb))")
    case (Inl e)
    then have "e = DateParseError" by (rule to_datetime_error)
    with Inl have "snd (temporal_buckets bins parse tb) = Inl DateParseError"
      by (simp add: temporal_buckets_def)
    with assms(1) show ?thesis by simp
  next
    case (Inr D)
    then show ?thesis by (rule that)
  qed
  let ?T' = "set_transaction_date (merged_df tb) D"
  have T': "merged_df (fst (temporal_buckets bins parse tb)) = ?T'"
    by (simp add: temporal_buckets_tables D)
  from assms(2) have sel: "select_anomalous ?T' (anomaly_df tb) = Inr S" by (simp only: T')
  show "snd (temporal_buckets bins parse tb) = Inr (histplot (numeric_dates (column transaction_date S)) bins)"
    by (simp add: temporal_buckets_def D Let_def sel)
  have "\<forall>x \<in> set ?T'. \<exists>t. transaction_date (snd x) = Timestamp t"
    using to_datetime_parsed [OF D] by (rule dates_parsed_timestamps)
  moreover have "set S \<subseteq> set ?T'"
    using sel unfolding select_anomalous_def select_rows_def by (rule iloc_subset)
  ultimately have "\<forall>x \<in> set S. \<exists>t. transaction_date (snd x) = Timestamp t" by blast
  then show "length (numeric_dates (column transaction_date S)) = length S"
    by (rule length_numeric_dates)
qed

lemma temporal_buckets_parse_error_iff:
  "snd (temporal_buckets bins parse tb) = Inl DateParseError \<longleftrightarrow>
     (\<exists>e. to_datetime parse (column transaction_date (merged_df tb)) = Inl e)"
  by (simp only: temporal_buckets_parse_error to_datetime_Inl unparseable_column)

lemma create_research_visualizations_vc_tables:
  "fst (create_research_visualizations_vc parse tb) = tb
   \<or> fst (create_research_visualizations_vc parse tb) = fst (create_temporal_analysis parse tb)"
  by (auto simp: create_research_visualizations_vc_def split: prod.splits sum.splits)

lemma create_research_visualizations_vc_stops:
  "snd (create_research_visualizations tb) = Inl e \<Longrightarrow>
   fst (create_research_visualizations_vc parse tb) = tb"
  by (auto simp: create_research_visualizations_vc_def split: prod.splits sum.splits)

lemma create_research_visualizations_vc_reaches:
  "snd (create_research_visualizations tb) = Inr ov \<Longrightarrow>
   fst (create_research_visualizations_vc parse tb) = fst (create_temporal_analysis parse tb)"
  by (auto simp: create_research_visualizations_vc_def split: prod.splits sum.splits)

lemma create_research_visualizations_result:
  "snd (create_research_visualizations tb) =
     (case select_anomalous (merged_df tb) (anomaly_df tb) of
        Inl e \<Rightarrow> Inl e
      | Inr S \<Rightarrow> Inr \<lparr>top_anomalies_sorted = top_k 10 S,
                        region_anomalies = value_counts (column region S)\<rparr>)"
  by (simp add: create_research_visualizations_def split: sum.splits)

lemma text_dated_overview:
  "snd (create_research_visualizations text_dated)
     = Inr \<lparr>top_anomalies_sorted = [(0, txn 10 ''NE'' (DateText ''1970-01-02''))],
            region_anomalies = [(''NE'', 1)]\<rparr>"
proof -
  let ?S = "[(0 :: int, txn 10 ''NE'' (DateText ''1970-01-02''))]"
  have s: "select_anomalous (merged_df text_dated) (anomaly_df text_dated) = Inr ?S"
    by (simp add: text_dated_def select_anomalous_def select_rows_def iloc_def index_of_def
        rows_where_def flagged_def)
  have k: "top_k 10 ?S = ?S"
    by (simp add: top_k_def nlargest_def rows_where_def desc_key_def txn_def)
  have v: "value_counts (column region ?S) = [(''NE'', 1)]"
    by (simp add: column_def value_counts_def present_def first_occurrences_def txn_def)
  show ?thesis by (simp add: create_research_visualizations_result s k v)
qed

text \<open>
  C3, as stated, fails: \<^verbatim>\<open>create_temporal_analysis\<close> assigns the parsed dates to the
  \<^verbatim>\<open>'transaction date'\<close> column of the \<open>merged_df\<close> it was given, and so does
  \<^verbatim>\<open>visualization_code.create_research_visualizations\<close>. A table whose date is the text
  \<^verbatim>\<open>1970-01-02\<close> holds a timestamp after either call.
\<close>

theorem create_temporal_analysis_rewrites_dates:
  "merged_df (fst (create_temporal_analysis sample_parse text_dated))
     = [(0, txn 10 ''NE'' (Timestamp 86400000000000))]
   \<and> merged_df (fst (create_temporal_analysis sample_parse text_dated)) \<noteq> merged_df text_dated
   \<and> merged_df (fst (create_research_visualizations_vc sample_parse text_dated))
     = [(0, txn 10 ''NE'' (Timestamp 86400000000000))]
   \<and> merged_df (fst (create_research_visualizations_vc sample_parse text_dated)) \<noteq> merged_df text_dated"
proof -
  have t: "fst (create_temporal_analysis sample_parse text_dated)
             = \<lparr>merged_df = [(0, txn 10 ''NE'' (Timestamp 86400000000000))], anomaly_df = [(0, flagged 1)]\<rparr>"
    by (simp add: create_temporal_analysis_def temporal_buckets_tables text_dated_def column_def
        sample_parse_def set_transaction_date_def txn_def)
  have "snd (create_research_visualizations text_dated)
          = Inr \<lparr>top_anomalies_sorted = [(0, txn 10 ''NE'' (DateText ''1970-01-02''))],
                 region_anomalies = [(''NE'', 1)]\<rparr>"
    by (rule text_dated_overview)
  then have "fst (create_research_visualizations_vc sample_parse text_dated)
          = fst (create_temporal_analysis sample_parse text_dated)"
    by (rule create_research_visualizations_vc_reaches)
  with t show ?thesis by (simp add: text_dated_def txn_def)
qed

text \<open>
  C3, amended. Every chart and report function leaves \<open>anomaly_df\<close> as it is, and every
  function except the temporal histogram leaves \<open>merged_df\<close> as it is. The temporal
  histogram replaces the transaction date of every row of \<open>merged_df\<close> by its parsed value
  and changes no label and no other field; when the dates fail to parse it changes nothing.
  \<^verbatim>\<open>visualization_code.create_research_visualizations\<close> contains that histogram: when its
  overview panels fail it leaves the tables as they are, and when they succeed it leaves
  the tables exactly as \<^verbatim>\<open>create_temporal_analysis\<close> leaves them, whatever happens in its
  later steps.
\<close>

theorem tables_changed_only_by_date_parsing:
  "fst (create_research_visualizations tb) = tb
   \<and> fst (create_mcc_analysis tb) = tb
   \<and> fst (create_correlation_analysis tb) = tb
   \<and> fst (create_heatmap_visualization tb) = tb
   \<and> fst (create_boxplot_analysis tb) = tb
   \<and> fst (create_boxplot_analysis_vc tb) = tb
   \<and> fst (print_summary_statistics tb) = tb
   \<and> anomaly_df (fst (create_temporal_analysis parse tb)) = anomaly_df tb
   \<and> (snd (create_temporal_analysis parse tb) = Inl DateParseError \<longrightarrow>
        fst (create_temporal_analysis parse tb) = tb)
   \<and> (snd (create_temporal_analysis parse tb) \<noteq> Inl DateParseError \<longrightarrow>
        dates_parsed parse (merged_df tb) (merged_df (fst (create_temporal_analysis parse tb))))
   \<and> (fst (create_research_visualizations_vc parse tb) = tb
        \<or> fst (create_research_visualizations_vc parse tb) = fst (create_temporal_analysis parse tb))
   \<and> (snd (create_research_visualizations tb) = Inl e \<longrightarrow>
        fst (create_research_visualizations_vc parse tb) = tb)
   \<and> (snd (create_research_visualizations tb) = Inr ov \<longrightarrow>
        fst (create_research_visualizations_vc parse tb) = fst (create_temporal_analysis parse tb))
   \<and> (snd (create_research_visualizations tb) = Inr ov \<longrightarrow>
        snd (create_temporal_analysis parse tb) \<noteq> Inl DateParseError \<longrightarrow>
        anomaly_df (fst (create_research_visualizations_vc parse tb)) = anomaly_df tb
        \<and> dates_parsed parse (merged_df tb)
              (merged_df (fst (create_research_visualizations_vc parse tb))))
   \<and> merged_df (fst (create_research_visualizations_vc sample_parse text_dated))
        = [(0, txn 10 ''NE'' (Timestamp 86400000000000))]"
proof (intro conjI impI)
  show "fst (create_research_visualizations tb) = tb"
    by (simp add: create_research_visualizations_def split: sum.splits)
  show "fst (create_mcc_analysis tb) = tb"
    by (simp add: create_mcc_analysis_def split: sum.splits)
  show "fst (create_correlation_analysis tb) = tb"
    by (simp add: create_correlation_analysis_def)
  show "fst (create_heatmap_visualization tb) = tb"
    by (simp add: create_heatmap_visualization_def)
  show "fst (create_boxplot_analysis tb) = tb"
    by (simp add: create_boxplot_analysis_def Let_def)
  show "fst (create_boxplot_analysis_vc tb) = tb"
    by (simp add: create_boxplot_analysis_vc_def)
  show "fst (print_summary_statistics tb) = tb"
    by (simp add: print_summary_statistics_def Let_def split: sum.splits)
  show a: "anomaly_df (fst (create_temporal_analysis parse tb)) = anomaly_df tb"
    by (simp add: create_temporal_analysis_def temporal_buckets_tables split: sum.splits)
  show "fst (create_temporal_analysis parse tb) = tb"
    if "snd (create_temporal_analysis parse tb) = Inl DateParseError"
  proof -
    from that obtain e where "to_datetime parse (column transaction_date (merged_df tb)) = Inl e"
      unfolding create_temporal_analysis_def temporal_buckets_parse_error_iff ..
    then show ?thesis by (simp add: create_temporal_analysis_def temporal_buckets_tables)
  qed
  show d: "dates_parsed parse (merged_df tb) (merged_df (fst (create_temporal_analysis parse tb)))"
    if "snd (create_temporal_analysis parse tb) \<noteq> Inl DateParseError"
  proof (cases "to_datetime parse (column transaction_date (merged_df tb))")
    case (Inl e)
    then have "snd (create_temporal_analysis parse tb) = Inl DateParseError"
      unfolding create_temporal_analysis_def temporal_buckets_parse_error_iff by blast
    with that show ?thesis by simp
  next
    case (Inr D)
    from to_datetime_parsed [OF Inr] show ?thesis
      by (simp add: create_temporal_analysis_def temporal_buckets_tables Inr)
  qed
  show "fst (create_research_visualizations_vc parse tb) = tb
        \<or> fst (create_research_visualizations_vc parse tb) = fst (create_temporal_analysis parse tb)"
    by (rule create_research_visualizations_vc_tables)
  show "fst (create_research_visualizations_vc parse tb) = tb"
    if "snd (create_research_visualizations tb) = Inl e"
    using that by (rule create_research_visualizations_vc_stops)
  show r: "fst (create_research_visualizations_vc parse tb) = fst (create_temporal_analysis parse tb)"
    if "snd (create_research_visualizations tb) = Inr ov"
    using that by (rule create_research_visualizations_vc_reaches)
  show "anomaly_df (fst (create_research_visualizations_vc parse tb)) = anomaly_df tb"
    if "snd (create_research_visualizations tb) = Inr ov"
    by (simp only: r [OF that] a)
  show "dates_parsed parse (merged_df tb) (merged_df (fst (create_research_visualizations_vc parse tb)))"
    if "snd (create_research_visualizations tb) = Inr ov"
      and "snd (create_temporal_analysis parse tb) \<noteq> Inl DateParseError"
    using d [OF that(2)] by (simp only: r [OF that(1)])
  show "merged_df (fst (create_research_visualizations_vc sample_parse text_dated))
        = [(0, txn 10 ''NE'' (Timestamp 86400000000000))]"
  proof -
    have "fst (create_research_visualizations_vc sample_parse text_dated)
            = fst (create_temporal_analysis sample_parse text_dated)"
      using text_dated_overview by (rule create_research_visualizations_vc_reaches)
    then show ?thesis
      by (simp add: create_temporal_analysis_def temporal_buckets_tables text_dated_def column_def
          sample_parse_def set_transaction_date_def txn_def)
  qed
qed

theorem tables_changed_only_by_date_parsing_witness:
  "snd (create_temporal_analysis sample_parse ill_dated) = Inl DateParseError
   \<and> fst (create_temporal_analysis sample_parse ill_dated) = ill_dated
   \<and> snd (create_temporal_analysis sample_parse text_dated) \<noteq> Inl DateParseError
   \<and> dates_parsed sample_parse (merged_df text_dated)
        (merged_df (fst (create_temporal_analysis sample_parse text_dated)))
   \<and> anomaly_df (fst (create_temporal_analysis sample_parse text_dated)) = anomaly_df text_dated
   \<and> snd (create_research_visualizations text_dated)
        = Inr \<lparr>top_anomalies_sorted = [(0, txn 10 ''NE'' (DateText ''1970-01-02''))],
               region_anomalies = [(''NE'', 1)]\<rparr>
   \<and> fst (create_research_visualizations_vc sample_parse text_dated)
        = fst (create_temporal_analysis sample_parse text_dated)
   \<and> dates_parsed sample_parse (merged_df text_dated)
        (merged_df (fst (create_research_visualizations_vc sample_parse text_dated)))
   \<and> merged_df (fst (create_research_visualizations_vc sample_parse text_dated))
        = [(0, txn 10 ''NE'' (Timestamp 86400000000000))]
   \<and> snd (create_research_visualizations ill_anomalies) = Inl IndexError
   \<and> fst (create_research_visualizations_vc sample_parse ill_anomalies) = ill_anomalies"
proof -
  let ?ov = "\<lparr>top_anomalies_sorted = [(0 :: int, txn 10 ''NE'' (DateText ''1970-01-02''))],
               region_anomalies = [(''NE'', 1 :: nat)]\<rparr>"
  have a: "snd (create_temporal_analysis sample_parse ill_dated) = Inl DateParseError"
    by (simp add: create_temporal_analysis_def temporal_buckets_def ill_dated_def column_def
        sample_parse_def txn_def)
  have b: "snd (create_temporal_analysis sample_parse text_dated) \<noteq> Inl DateParseError"
    by (simp add: create_temporal_analysis_def temporal_buckets_parse_error text_dated_def
        sample_parse_def txn_def)
  have o: "snd (create_research_visualizations text_dated) = Inr ?ov"
    by (rule text_dated_overview)
  have x: "snd (create_research_visualizations ill_anomalies) = Inl IndexError"
    by (simp add: create_research_visualizations_result ill_anomalies_def select_anomalous_def
        select_rows_def iloc_def index_of_def rows_where_def flagged_def)
  note t1 = tables_changed_only_by_date_parsing [of ill_dated sample_parse]
  note t2 = tables_changed_only_by_date_parsing [of text_dated sample_parse _ ?ov]
  note t3 = tables_changed_only_by_date_parsing [of ill_anomalies sample_parse IndexError]
  from t1 a have c: "fst (create_temporal_analysis sample_parse ill_dated) = ill_dated" by blast
  from t2 b have d: "dates_parsed sample_parse (merged_df text_dated)
        (merged_df (fst (create_temporal_analysis sample_parse text_dated)))" by blast
  from t2 have e: "anomaly_df (fst (create_temporal_analysis sample_parse text_dated)) = anomaly_df text_dated"
    by blast
  from t2 o have f: "fst (create_research_visualizations_vc sample_parse text_dated)
        = fst (create_temporal_analysis sample_parse text_dated)" by blast
  from t2 o b have g: "dates_parsed sample_parse (merged_df text_dated)
        (merged_df (fst (create_research_visualizations_vc sample_parse text_dated)))" by blast
  from t2 have h: "merged_df (fst (create_research_visualizations_vc sample_parse text_dated))
        = [(0, txn 10 ''NE'' (Timestamp 86400000000000))]" by blast
  from t3 x have k: "fst (create_research_visualizations_vc sample_parse ill_anomalies) = ill_anomalies"
    by blast
  from a c b d e o f g h x k show ?thesis by (intro conjI)
qed

text \<open>
  C5, as stated, fails: the histogram sees only the dates of the selected rows. With dates
  0, 30, 59, 60 of which those at 30 and 60 are flagged, the thirty bins span 30 to 60,
  where the dates of the whole table span 0 to 60; the first bin holds one date, and
  would hold none if the bins spanned the whole table's dates.
\<close>

theorem create_temporal_analysis_spans_selection:
  "snd (create_temporal_analysis sample_parse example_tables)
        = Inr (Some (bin_edges (30, 60) 30, bin_counts (30, 60) 30 [30, 60]))
   \<and> bin_range (numeric_dates (column transaction_date (merged_df example_tables))) = (0, 60)
   \<and> hd (bin_edges (30, 60) 30) = 30 \<and> last (bin_edges (30, 60) 30) = 60
   \<and> bin_counts (30, 60) 30 [30, 60] ! 0 = 1
   \<and> bin_counts (0, 60) 30 [30, 60] ! 0 = 0"
proof (intro conjI)
  let ?S = "[(1, txn 50 ''SW'' (Timestamp 30)), (3, txn 90 ''MW'' (Timestamp 60))]"
  have d: "to_datetime sample_parse (column transaction_date example_transactions)
             = Inr (column transaction_date example_transactions)"
    by (simp add: example_transactions_def column_def txn_def)
  have u: "set_transaction_date example_transactions (column transaction_date example_transactions)
             = example_transactions"
    by (simp add: example_transactions_def column_def txn_def set_transaction_date_def)
  have s: "select_anomalous example_transactions example_anomalies = Inr ?S"
    by (simp add: example_transactions_def example_anomalies_def select_anomalous_def
        select_rows_def iloc_def index_of_def rows_where_def flagged_def)
  have n: "numeric_dates (column transaction_date ?S) = [30, 60]"
    by (simp add: numeric_dates_def column_def txn_def)
  have b: "bin_range [30, 60] = (30, 60)"
    by (simp add: bin_range_def Let_def)
  show "snd (create_temporal_analysis sample_parse example_tables)
        = Inr (Some (bin_edges (30, 60) 30, bin_counts (30, 60) 30 [30, 60]))"
    by (simp add: create_temporal_analysis_def temporal_buckets_def example_tables_def d u s n
        histplot_def b)
  show "bin_range (numeric_dates (column transaction_date (merged_df example_tables))) = (0, 60)"
    by (simp add: example_tables_def example_transactions_def column_def txn_def numeric_dates_def
        bin_range_def Let_def)
  show "hd (bin_edges (30, 60) 30) = 30" by (simp add: hd_bin_edges)
  show "last (bin_edges (30, 60) 30) = 60" by (simp add: last_bin_edges)
  have "bin_counts (30, 60) 30 [30, 60] ! 0 = length (filter (\<lambda>x. bin_index (30, 60) 30 x = 0) [30, 60])"
    by (simp add: bin_counts_def)
  then show "bin_counts (30, 60) 30 [30, 60] ! 0 = 1"
    by (simp add: bin_index_def)
  have "bin_counts (0, 60) 30 [30, 60] ! 0 = length (filter (\<lambda>x. bin_index (0, 60) 30 x = 0) [30, 60])"
    by (simp add: bin_counts_def)
  then show "bin_counts (0, 60) 30 [30, 60] ! 0 = 0"
    by (simp add: bin_index_def)
qed

text \<open>
  C5, amended. \<open>temporal_buckets bins\<close> is the body of \<^verbatim>\<open>create_temporal_analysis\<close>, which
  calls it with 30 bins. It parses the date column of the whole table and fails with
  DateParseError exactly when some date of the table is unparseable text. Otherwise, with
  \<open>S\<close> the rows selected from the parsed table: every row of \<open>S\<close> contributes one
  timestamp; nothing is drawn for an empty \<open>S\<close>; for a non-empty \<open>S\<close> the histogram has
  \<open>bins\<close> bins of equal width whose edges run from the smallest to the largest timestamp
  of \<open>S\<close> itself (widened by one half on each side when these coincide), every timestamp
  lies between the edges of its bin, the counts sum to the size of \<open>S\<close>, and a single bin
  holds all of \<open>S\<close>.
\<close>

theorem temporal_buckets_span_selection:
  "create_temporal_analysis parse tb = temporal_buckets 30 parse tb
   \<and> (snd (temporal_buckets bins parse tb) = Inl DateParseError \<longleftrightarrow>
        (\<exists>x \<in> set (merged_df tb). \<exists>s. transaction_date (snd x) = DateText s \<and> parse s = None))
   \<and> (snd (temporal_buckets bins parse tb) \<noteq> Inl DateParseError \<longrightarrow>
        select_anomalous (merged_df (fst (temporal_buckets bins parse tb))) (anomaly_df tb) = Inr S \<longrightarrow>
        (let xs = numeric_dates (column transaction_date S); rng = bin_range xs
         in length xs = length S
            \<and> (S = [] \<longrightarrow> snd (temporal_buckets bins parse tb) = Inr None)
            \<and> (S \<noteq> [] \<longrightarrow>
                 snd (temporal_buckets bins parse tb)
                   = Inr (Some (bin_edges rng bins, bin_counts rng bins xs))
                 \<and> rng = (if Min (set xs) = Max (set xs)
                          then (Min (set xs) - 1 / 2, Max (set xs) + 1 / 2)
                          else (Min (set xs), Max (set xs)))
                 \<and> length (bin_edges rng bins) = bins + 1
                 \<and> length (bin_counts rng bins xs) = bins
                 \<and> hd (bin_edges rng bins) = fst rng
                 \<and> (\<forall>k < bins. bin_counts rng bins xs ! k
                                   = length (filter (\<lambda>x. bin_index rng bins x = k) xs)))
            \<and> (S \<noteq> [] \<longrightarrow> 0 < bins \<longrightarrow>
                 last (bin_edges rng bins) = snd rng
                 \<and> (\<forall>k < bins. bin_edges rng bins ! Suc k - bin_edges rng bins ! k
                                   = (snd rng - fst rng) / real bins)
                 \<and> (\<forall>x \<in> set xs. bin_index rng bins x < bins
                                   \<and> bin_edges rng bins ! bin_index rng bins x \<le> x
                                   \<and> x \<le> bin_edges rng bins ! Suc (bin_index rng bins x))
                 \<and> sum_list (bin_counts rng bins xs) = length S)
            \<and> (S \<noteq> [] \<longrightarrow> bins = 1 \<longrightarrow> bin_counts rng bins xs = [length S])))"
proof (intro conjI impI)
  show "create_temporal_analysis parse tb = temporal_buckets 30 parse tb"
    by (simp add: create_temporal_analysis_def)
  show "snd (temporal_buckets bins parse tb) = Inl DateParseError \<longleftrightarrow>
        (\<exists>x \<in> set (merged_df tb). \<exists>s. transaction_date (snd x) = DateText s \<and> parse s = None)"
    by (rule temporal_buckets_parse_error)
next
  let ?xs = "numeric_dates (column transaction_date S)"
  let ?rng = "bin_range ?xs"
  assume ok: "snd (temporal_buckets bins parse tb) \<noteq> Inl DateParseError"
    and sel: "select_anomalous (merged_df (fst (temporal_buckets bins parse tb))) (anomaly_df tb) = Inr S"
  note res = temporal_buckets_result(1) [OF ok sel]
  note len = temporal_buckets_result(2) [OF ok sel]
  have ne: "?xs \<noteq> []" if "S \<noteq> []"
  proof
    assume "?xs = []"
    then have "length ?xs = 0" by simp
    with len have "length S = 0" by simp
    with that show False by simp
  qed
  have 1: "S = [] \<longrightarrow> snd (temporal_buckets bins parse tb) = Inr None"
  proof
    assume "S = []"
    with len have "?xs = []" by simp
    then show "snd (temporal_buckets bins parse tb) = Inr None"
      by (simp add: res histplot_def)
  qed
  have 2: "S \<noteq> [] \<longrightarrow>
             snd (temporal_buckets bins parse tb)
               = Inr (Some (bin_edges ?rng bins, bin_counts ?rng bins ?xs))
             \<and> ?rng = (if Min (set ?xs) = Max (set ?xs)
                       then (Min (set ?xs) - 1 / 2, Max (set ?xs) + 1 / 2)
                       else (Min (set ?xs), Max (set ?xs)))
             \<and> length (bin_edges ?rng bins) = bins + 1
             \<and> length (bin_counts ?rng bins ?xs) = bins
             \<and> hd (bin_edges ?rng bins) = fst ?rng
             \<and> (\<forall>k < bins. bin_counts ?rng bins ?xs ! k
                               = length (filter (\<lambda>x. bin_index ?rng bins x = k) ?xs))"
  proof (intro impI conjI allI)
    assume S: "S \<noteq> []"
    show "snd (temporal_buckets bins parse tb)
            = Inr (Some (bin_edges ?rng bins, bin_counts ?rng bins ?xs))"
      using ne [OF S] by (simp add: res histplot_def)
    show "?rng = (if Min (set ?xs) = Max (set ?xs)
                  then (Min (set ?xs) - 1 / 2, Max (set ?xs) + 1 / 2)
                  else (Min (set ?xs), Max (set ?xs)))"
      by (rule bin_range_spans)
    show "length (bin_edges ?rng bins) = bins + 1" by (simp add: length_bin_edges)
    show "length (bin_counts ?rng bins ?xs) = bins" by (rule length_bin_counts)
    show "hd (bin_edges ?rng bins) = fst ?rng" by (rule hd_bin_edges)
    show "bin_counts ?rng bins ?xs ! k = length (filter (\<lambda>x. bin_index ?rng bins x = k) ?xs)"
      if "k < bins" for k
      using that by (simp add: bin_counts_def)
  qed
  have 3: "S \<noteq> [] \<longrightarrow> 0 < bins \<longrightarrow>
             last (bin_edges ?rng bins) = snd ?rng
             \<and> (\<forall>k < bins. bin_edges ?rng bins ! Suc k - bin_edges ?rng bins ! k
                               = (snd ?rng - fst ?rng) / real bins)
             \<and> (\<forall>x \<in> set ?xs. bin_index ?rng bins x < bins
                               \<and> bin_edges ?rng bins ! bin_index ?rng bins x \<le> x
                               \<and> x \<le> bin_edges ?rng bins ! Suc (bin_index ?rng bins x))
             \<and> sum_list (bin_counts ?rng bins ?xs) = length S"
  proof (intro impI conjI allI ballI)
    assume S: "S \<noteq> []" and b: "0 < bins"
    note r = bin_range_props [OF ne [OF S]]
    show "last (bin_edges ?rng bins) = snd ?rng" using b by (rule last_bin_edges)
    show "bin_edges ?rng bins ! Suc k - bin_edges ?rng bins ! k = (snd ?rng - fst ?rng) / real bins"
      if "k < bins" for k
      using that by (rule width_bin_edges)
    show "sum_list (bin_counts ?rng bins ?xs) = length S"
      using sum_bin_counts [OF b ne [OF S]] by (simp only: len)
    fix x assume x: "x \<in> set ?xs"
    with r(2) have lo: "fst ?rng \<le> x" and hi: "x \<le> snd ?rng" by blast+
    show "bin_index ?rng bins x < bins"
      by (rule bin_index_bounds(1) [OF b r(1) lo hi])
    show "bin_edges ?rng bins ! bin_index ?rng bins x \<le> x"
      by (rule bin_index_bounds(2) [OF b r(1) lo hi])
    show "x \<le> bin_edges ?rng bins ! Suc (bin_index ?rng bins x)"
      by (rule bin_index_bounds(3) [OF b r(1) lo hi])
  qed
  have 4: "S \<noteq> [] \<longrightarrow> bins = 1 \<longrightarrow> bin_counts ?rng bins ?xs = [length S]"
  proof (intro impI)
    assume S: "S \<noteq> []" and b: "bins = 1"
    show "bin_counts ?rng bins ?xs = [length S]"
      using single_bin [OF ne [OF S]] by (simp only: b len)
  qed
  show "let xs = numeric_dates (column transaction_date S); rng = bin_range xs
         in length xs = length S
            \<and> (S = [] \<longrightarrow> snd (temporal_buckets bins parse tb) = Inr None)
            \<and> (S \<noteq> [] \<longrightarrow>
                 snd (temporal_buckets bins parse tb)
                   = Inr (Some (bin_edges rng bins, bin_counts rng bins xs))
                 \<and> rng = (if Min (set xs) = Max (set xs)
                          then (Min (set xs) - 1 / 2, Max (set xs) + 1 / 2)
                          else (Min (set xs), Max (set xs)))
                 \<and> length (bin_edges rng bins) = bins + 1
                 \<and> length (bin_counts rng bins xs) = bins
                 \<and> hd (bin_edges rng bins) = fst rng
                 \<and> (\<forall>k < bins. bin_counts rng bins xs ! k
                                   = length (filter (\<lambda>x. bin_index rng bins x = k) xs)))
            \<and> (S \<noteq> [] \<longrightarrow> 0 < bins \<longrightarrow>
                 last (bin_edges rng bins) = snd rng
                 \<and> (\<forall>k < bins. bin_edges rng bins ! Suc k - bin_edges rng bins ! k
                                   = (snd rng - fst rng) / real bins)
                 \<and> (\<forall>x \<in> set xs. bin_index rng bins x < bins
                                   \<and> bin_edges rng bins ! bin_index rng bins x \<le> x
                                   \<and> x \<le> bin_edges rng bins ! Suc (bin_index rng bins x))
                 \<and> sum_list (bin_counts rng bins xs) = length S)
            \<and> (S \<noteq> [] \<longrightarrow> bins = 1 \<longrightarrow> bin_counts rng bins xs = [length S])"
    unfolding Let_def by (rule conjI [OF len conjI [OF 1 conjI [OF 2 conjI [OF 3 4]]]])
qed

theorem temporal_buckets_span_selection_witness:
  "snd (temporal_buckets 1 sample_parse ill_dated) = Inl DateParseError
   \<and> snd (temporal_buckets 1 sample_parse example_tables) \<noteq> Inl DateParseError
   \<and> select_anomalous (merged_df (fst (temporal_buckets 1 sample_parse example_tables)))
        (anomaly_df example_tables)
        = Inr [(1, txn 50 ''SW'' (Timestamp 30)), (3, txn 90 ''MW'' (Timestamp 60))]
   \<and> snd (temporal_buckets 1 sample_parse example_tables)
        = Inr (Some (bin_edges (30, 60) 1, [2]))"
proof -
  let ?S = "[(1, txn 50 ''SW'' (Timestamp 30)), (3, txn 90 ''MW'' (Timestamp 60))]"
  note t = temporal_buckets_span_selection [of sample_parse ill_dated 1 "[]"]
  have "\<exists>x \<in> set (merged_df ill_dated). \<exists>s. transaction_date (snd x) = DateText s \<and> sample_parse s = None"
    by (simp add: ill_dated_def txn_def sample_parse_def)
  with t [THEN conjunct2, THEN conjunct1]
  have a: "snd (temporal_buckets 1 sample_parse ill_dated) = Inl DateParseError"
    by (rule iffD2)
  have d: "to_datetime sample_parse (column transaction_date example_transactions)
             = Inr (column transaction_date example_transactions)"
    by (simp add: example_transactions_def column_def txn_def)
  have u: "set_transaction_date example_transactions (column transaction_date example_transactions)
             = example_transactions"
    by (simp add: example_transactions_def column_def txn_def set_transaction_date_def)
  have b: "snd (temporal_buckets 1 sample_parse example_tables) \<noteq> Inl DateParseError"
    by (simp add: temporal_buckets_parse_error_iff example_tables_def d)
  have "select_anomalous example_transactions example_anomalies = Inr ?S"
    by (simp add: example_transactions_def example_anomalies_def select_anomalous_def
        select_rows_def iloc_def index_of_def rows_where_def flagged_def)
  then have s: "select_anomalous (merged_df (fst (temporal_buckets 1 sample_parse example_tables)))
        (anomaly_df example_tables) = Inr ?S"
    by (simp add: temporal_buckets_tables example_tables_def d u)
  have n: "numeric_dates (column transaction_date ?S) = [30, 60]"
    by (simp add: numeric_dates_def column_def txn_def)
  have r: "bin_range [30, 60] = (30, 60)"
    by (simp add: bin_range_def Let_def)
  have S: "?S \<noteq> []" by simp
  note core = temporal_buckets_span_selection [of sample_parse example_tables 1 ?S,
      THEN conjunct2, THEN conjunct2, rule_format, OF b s, unfolded Let_def]
  note nonempty = core [THEN conjunct2, THEN conjunct2, THEN conjunct1, rule_format, OF S]
  note single = core [THEN conjunct2, THEN conjunct2, THEN conjunct2, THEN conjunct2, rule_format, OF S refl]
  from nonempty [THEN conjunct1] single
  have c: "snd (temporal_buckets 1 sample_parse example_tables) = Inr (Some (bin_edges (30, 60) 1, [2]))"
    by (simp add: n r)
  from a b s c show ?thesis by (intro conjI)
qed

section \<open>The correlation matrix\<close>

lemma complete_pairs_Nil: "complete_pairs [] ys = []" "complete_pairs xs [] = []"
  by (simp_all add: complete_pairs_def)

lemma complete_pairs_Cons:
  "complete_pairs (x # xs) (y # ys) =
     (case (x, y) of (Some a, Some b) \<Rightarrow> [(a, b)] | _ \<Rightarrow> []) @ complete_pairs xs ys"
  by (simp add: complete_pairs_def)

lemma complete_pairs_swap: "complete_pairs ys xs = map prod.swap (complete_pairs xs ys)"
proof (induction xs arbitrary: ys)
  case Nil
  then show ?case by (simp add: complete_pairs_Nil)
next
  case (Cons x xs)
  show ?case
  proof (cases ys)
    case Nil
    then show ?thesis by (simp add: complete_pairs_Nil)
  next
    case (Cons y ys')
    show ?thesis
      unfolding Cons complete_pairs_Cons Cons.IH [of ys']
      by (simp split: option.splits)
  qed
qed

lemma complete_pairs_self: "complete_pairs xs xs = map (\<lambda>a. (a, a)) (non_missing xs)"
  by (induction xs) (simp_all add: complete_pairs_Nil complete_pairs_Cons non_missing_def split: option.splits)

lemma pearson_swap: "pearson (map prod.swap ps) = pearson ps"
proof -
  have 1: "map fst (map prod.swap ps) = map snd ps" "map snd (map prod.swap ps) = map fst ps"
    by simp_all
  have 2: "\<And>g. sum_list (map (\<lambda>(x, y). g x y) (map prod.swap ps)) = sum_list (map (\<lambda>(x, y). g y x) ps)"
    by (simp add: comp_def case_prod_unfold)
  show ?thesis
    unfolding pearson_def Let_def 1 2 length_map
    by (simp add: mult.commute)
qed


lemma sum_list_const: "\<forall>x \<in> set xs. x = c \<Longrightarrow> sum_list xs = real (length xs) * (c :: real)"
  by (induction xs) (simp_all add: algebra_simps)

lemma all_equal_mean:
  assumes "vs \<noteq> []"
  shows "(\<forall>a \<in> set vs. a = sum_list vs / real (length vs)) \<longleftrightarrow> (\<forall>a \<in> set vs. \<forall>b \<in> set vs. a = b)"
proof
  assume "\<forall>a \<in> set vs. a = sum_list vs / real (length vs)"
  then show "\<forall>a \<in> set vs. \<forall>b \<in> set vs. a = b" by metis
next
  assume eq: "\<forall>a \<in> set vs. \<forall>b \<in> set vs. a = b"
  from assms obtain c where c: "c \<in> set vs" by (cases vs) auto
  with eq have all: "\<forall>x \<in> set vs. x = c" by blast
  then have "sum_list vs = real (length vs) * c" by (rule sum_list_const)
  moreover have "real (length vs) \<noteq> 0" using assms by simp
  ultimately have "sum_list vs / real (length vs) = c" by simp
  with all show "\<forall>a \<in> set vs. a = sum_list vs / real (length vs)" by simp
qed

lemma sum_squares_zero:
  "sum_list (map (\<lambda>a. (a - m) * (a - m)) vs) = 0 \<longleftrightarrow> (\<forall>a \<in> set vs. a = (m :: real))"
proof -
  have "sum_list (map (\<lambda>a. (a - m) * (a - m)) vs) = 0
          \<longleftrightarrow> (\<forall>x \<in> set (map (\<lambda>a. (a - m) * (a - m)) vs). x = 0)"
    by (rule sum_list_nonneg_eq_0_iff) auto
  then show ?thesis by simp
qed

lemma sum_squares_nonneg: "0 \<le> sum_list (map (\<lambda>a. (a - m) * (a - m)) vs)" for m :: real
  by (rule sum_list_nonneg) auto

lemma pearson_self:
  "pearson (map (\<lambda>a. (a, a)) vs) =
     (if \<exists>a \<in> set vs. \<exists>b \<in> set vs. a \<noteq> b then Some 1 else None)"
proof (cases "vs = []")
  case True
  then show ?thesis by (simp add: pearson_def)
next
  case False
  define m where "m = sum_list vs / real (length vs)"
  define s where "s = sum_list (map (\<lambda>a. (a - m) * (a - m)) vs)"
  have f: "map fst (map (\<lambda>a. (a, a)) vs) = vs" "map snd (map (\<lambda>a. (a, a)) vs) = vs"
    by (simp_all add: comp_def)
  have g: "\<And>h. map (\<lambda>(x, y). h x y) (map (\<lambda>a. (a, a)) vs) = map (\<lambda>a. h a a) vs"
    by (simp add: comp_def)
  have p: "pearson (map (\<lambda>a. (a, a)) vs) = (if sqrt (s * s) \<noteq> 0 then Some (s / sqrt (s * s)) else None)"
    unfolding pearson_def Let_def f g length_map s_def m_def using False by simp
  have s0: "0 \<le> s" unfolding s_def by (rule sum_squares_nonneg)
  have z: "s = 0 \<longleftrightarrow> (\<forall>a \<in> set vs. \<forall>b \<in> set vs. a = b)"
    unfolding s_def sum_squares_zero m_def by (rule all_equal_mean [OF False])
  show ?thesis
  proof (cases "s = 0")
    case True
    with z show ?thesis by (simp add: p)
  next
    case False
    with z have "\<exists>a \<in> set vs. \<exists>b \<in> set vs. a \<noteq> b" by blast
    with False s0 show ?thesis by (simp add: p)
  qed
qed

lemma complete_pairs_filter:
  "complete_pairs xs ys =
     map (\<lambda>(x, y). (the x, the y)) (filter (\<lambda>(x, y). x \<noteq> None \<and> y \<noteq> None) (zip xs ys))"
proof (induction xs arbitrary: ys)
  case Nil
  then show ?case by (simp add: complete_pairs_Nil)
next
  case (Cons x xs)
  show ?case
  proof (cases ys)
    case Nil
    then show ?thesis by (simp add: complete_pairs_Nil)
  next
    case (Cons y ys')
    show ?thesis
      unfolding Cons complete_pairs_Cons Cons.IH [of ys']
      by (simp split: option.splits)
  qed
qed

lemma correlation_matrix_nth:
  assumes "i < length names" and "j < length names"
  shows "correlation_matrix names T ! i ! j
           = pearson (complete_pairs (field_values (names ! i) T) (field_values (names ! j) T))"
proof -
  let ?cols = "map (\<lambda>f. map (\<lambda>(l, r). f r) T) names"
  have ci: "?cols ! i = field_values (names ! i) T" using assms(1) by (simp add: field_values_def)
  have cj: "?cols ! j = field_values (names ! j) T" using assms(2) by (simp add: field_values_def)
  have "corr ?cols ! i = map (\<lambda>ys. pearson (complete_pairs (?cols ! i) ys)) ?cols"
    unfolding corr_def using assms(1) by simp
  then have "corr ?cols ! i ! j = pearson (complete_pairs (?cols ! i) (?cols ! j))"
    using assms(2) by simp
  then show ?thesis by (simp only: correlation_matrix_def ci cj)
qed

lemma correlation_matrix_shape:
  "length (correlation_matrix names T) = length names"
  "i < length names \<Longrightarrow> length (correlation_matrix names T ! i) = length names"
  by (simp_all add: correlation_matrix_def corr_def)

lemma pearson_formula:
  "pearson ps =
     (let m = real (length ps);
          mx = sum_list (map fst ps) / m;
          my = sum_list (map snd ps) / m;
          sxx = sum_list (map (\<lambda>(x, y). (x - mx)\<^sup>2) ps);
          syy = sum_list (map (\<lambda>(x, y). (y - my)\<^sup>2) ps);
          sxy = sum_list (map (\<lambda>(x, y). (x - mx) * (y - my)) ps)
      in if ps = [] \<or> sxx = 0 \<or> syy = 0 then None else Some (sxy / sqrt (sxx * syy)))"
  by (simp add: pearson_def Let_def power2_eq_square)

lemma varied_pairs:
  "complete_pairs (field_values transaction_amount varied_transactions)
     (field_values mcc varied_transactions) = [(1, 1), (2, 3), (3, 2)]"
  by (simp add: complete_pairs_def field_values_def varied_transactions_def txn_def)

lemma varied_matrix:
  "correlation_matrix numerical_features varied_transactions
     = [[Some 1, Some (1 / 2), None], [Some (1 / 2), Some 1, None], [None, None, None]]"
  by (simp add: correlation_matrix_def numerical_features_def varied_transactions_def txn_def
      corr_def complete_pairs_def pearson_def Let_def)

text \<open>
  C8, as stated, fails: a field whose non-missing values are all equal has no correlation
  with itself. In the four sample transactions the category code and the postal code are
  constant; only the amount has a diagonal entry, and every other entry is NaN.
\<close>

theorem correlation_of_constant_field:
  "snd (create_correlation_analysis example_tables)
     = Inr [[Some 1, None, None], [None, None, None], [None, None, None]]
   \<and> snd (create_heatmap_visualization example_tables)
     = Inr [[Some 1, None, None], [None, None, None], [None, None, None]]"
proof -
  have "correlation_matrix numerical_features example_transactions
          = [[Some 1, None, None], [None, None, None], [None, None, None]]"
    by (simp add: correlation_matrix_def numerical_features_def example_transactions_def txn_def
        corr_def complete_pairs_def pearson_def Let_def)
  then show ?thesis
    by (simp add: create_correlation_analysis_def create_heatmap_visualization_def example_tables_def)
qed

text \<open>
  C8, amended. For a list of \<open>n\<close> numeric fields the correlation matrix has \<open>n\<close> rows of
  \<open>n\<close> entries. The entry for two fields is computed from the pairs of their values over
  the rows where both are present: with \<open>mx\<close>, \<open>my\<close> the means of the two sides of these
  pairs, it is the sum of the products of the deviations divided by the square root of
  the product of the two sums of squared deviations, and NaN when there is no pair or one
  of the two sums of squares is zero. The matrix is symmetric, and a diagonal entry is 1
  when the field has two different non-missing values, and NaN otherwise. Both
  \<^verbatim>\<open>create_correlation_analysis\<close> and \<^verbatim>\<open>create_heatmap_visualization\<close> return the matrix of
  amount, category code and postal code; for amounts 1, 2, 3 and a missing one against
  category codes 1, 3, 2, 10 the off-diagonal entry is one half. The arithmetic is exact.
\<close>

theorem correlation_matrix_symmetric_diagonal:
  "length (correlation_matrix names T) = length names
   \<and> (\<forall>i < length names. length (correlation_matrix names T ! i) = length names)
   \<and> (\<forall>i < length names. \<forall>j < length names.
         correlation_matrix names T ! i ! j
           = pearson (complete_pairs (field_values (names ! i) T) (field_values (names ! j) T)))
   \<and> (\<forall>i < length names. \<forall>j < length names.
         (let ps = complete_pairs (field_values (names ! i) T) (field_values (names ! j) T);
              m = real (length ps);
              mx = sum_list (map fst ps) / m;
              my = sum_list (map snd ps) / m;
              sxx = sum_list (map (\<lambda>(x, y). (x - mx)\<^sup>2) ps);
              syy = sum_list (map (\<lambda>(x, y). (y - my)\<^sup>2) ps);
              sxy = sum_list (map (\<lambda>(x, y). (x - mx) * (y - my)) ps)
          in correlation_matrix names T ! i ! j
               = (if ps = [] \<or> sxx = 0 \<or> syy = 0 then None else Some (sxy / sqrt (sxx * syy)))))
   \<and> complete_pairs xs ys
        = map (\<lambda>(x, y). (the x, the y)) (filter (\<lambda>(x, y). x \<noteq> None \<and> y \<noteq> None) (zip xs ys))
   \<and> (\<forall>i < length names. \<forall>j < length names.
         correlation_matrix names T ! i ! j = correlation_matrix names T ! j ! i)
   \<and> (\<forall>i < length names.
         correlation_matrix names T ! i ! i
           = (if \<exists>a \<in> set (non_missing (field_values (names ! i) T)).
                   \<exists>b \<in> set (non_missing (field_values (names ! i) T)). a \<noteq> b
              then Some 1 else None))
   \<and> snd (create_correlation_analysis tb) = Inr (correlation_matrix numerical_features (merged_df tb))
   \<and> snd (create_heatmap_visualization tb) = Inr (correlation_matrix numerical_features (merged_df tb))
   \<and> snd (create_correlation_analysis varied_tables)
        = Inr [[Some 1, Some (1 / 2), None], [Some (1 / 2), Some 1, None], [None, None, None]]
   \<and> pearson [(0, 1), (1, 0)] = Some (- 1)"
proof (intro conjI allI impI)
  show "length (correlation_matrix names T) = length names"
    by (rule correlation_matrix_shape)
  show "length (correlation_matrix names T ! i) = length names" if "i < length names" for i
    using that by (rule correlation_matrix_shape)
  show "correlation_matrix names T ! i ! j
           = pearson (complete_pairs (field_values (names ! i) T) (field_values (names ! j) T))"
    if "i < length names" "j < length names" for i j
    using that by (rule correlation_matrix_nth)
  show "let ps = complete_pairs (field_values (names ! i) T) (field_values (names ! j) T);
              m = real (length ps);
              mx = sum_list (map fst ps) / m;
              my = sum_list (map snd ps) / m;
              sxx = sum_list (map (\<lambda>(x, y). (x - mx)\<^sup>2) ps);
              syy = sum_list (map (\<lambda>(x, y). (y - my)\<^sup>2) ps);
              sxy = sum_list (map (\<lambda>(x, y). (x - mx) * (y - my)) ps)
          in correlation_matrix names T ! i ! j
               = (if ps = [] \<or> sxx = 0 \<or> syy = 0 then None else Some (sxy / sqrt (sxx * syy)))"
    if "i < length names" "j < length names" for i j
    unfolding correlation_matrix_nth [OF that]
    using pearson_formula [of "complete_pairs (field_values (names ! i) T) (field_values (names ! j) T)"]
    unfolding Let_def .
  show "complete_pairs xs ys
        = map (\<lambda>(x, y). (the x, the y)) (filter (\<lambda>(x, y). x \<noteq> None \<and> y \<noteq> None) (zip xs ys))"
    by (rule complete_pairs_filter)
  show "correlation_matrix names T ! i ! j = correlation_matrix names T ! j ! i"
    if "i < length names" "j < length names" for i j
  proof -
    have "correlation_matrix names T ! j ! i
            = pearson (complete_pairs (field_values (names ! j) T) (field_values (names ! i) T))"
      using that(2,1) by (rule correlation_matrix_nth)
    also have "\<dots> = pearson (map prod.swap (complete_pairs (field_values (names ! i) T) (field_values (names ! j) T)))"
      by (simp only: complete_pairs_swap [of "field_values (names ! j) T"])
    also have "\<dots> = pearson (complete_pairs (field_values (names ! i) T) (field_values (names ! j) T))"
      by (rule pearson_swap)
    also have "\<dots> = correlation_matrix names T ! i ! j"
      using that by (rule correlation_matrix_nth [symmetric])
    finally show ?thesis by (rule sym)
  qed
  show "correlation_matrix names T ! i ! i
           = (if \<exists>a \<in> set (non_missing (field_values (names ! i) T)).
                   \<exists>b \<in> set (non_missing (field_values (names ! i) T)). a \<noteq> b
              then Some 1 else None)"
    if "i < length names" for i
    by (simp only: correlation_matrix_nth [OF that that] complete_pairs_self pearson_self)
  show "snd (create_correlation_analysis tb) = Inr (correlation_matrix numerical_features (merged_df tb))"
    by (simp add: create_correlation_analysis_def)
  show "snd (create_heatmap_visualization tb) = Inr (correlation_matrix numerical_features (merged_df tb))"
    by (simp add: create_heatmap_visualization_def)
  show "snd (create_correlation_analysis varied_tables)
        = Inr [[Some 1, Some (1 / 2), None], [Some (1 / 2), Some 1, None], [None, None, None]]"
    by (simp add: create_correlation_analysis_def varied_tables_def varied_matrix)
  show "pearson [(0, 1), (1, 0)] = Some (- 1)"
    by (simp add: pearson_def Let_def real_sqrt_divide)
qed

theorem correlation_matrix_symmetric_diagonal_witness:
  "(0 :: nat) < length numerical_features
   \<and> (1 :: nat) < length numerical_features
   \<and> correlation_matrix numerical_features example_transactions ! 0 ! 0 = Some 1
   \<and> correlation_matrix numerical_features example_transactions ! 1 ! 1 = None
   \<and> correlation_matrix numerical_features example_transactions ! 0 ! 1
        = correlation_matrix numerical_features example_transactions ! 1 ! 0
   \<and> correlation_matrix numerical_features varied_transactions ! 0 ! 1 = Some (1 / 2)
   \<and> correlation_matrix numerical_features varied_transactions ! 1 ! 0 = Some (1 / 2)"
proof -
  have l0: "(0 :: nat) < length numerical_features" and l1: "(1 :: nat) < length numerical_features"
    by (simp_all add: numerical_features_def)
  have v0: "non_missing (field_values (numerical_features ! 0) example_transactions) = [10, 50, 30, 90]"
    by (simp add: numerical_features_def field_values_def non_missing_def example_transactions_def txn_def)
  have v1: "non_missing (field_values (numerical_features ! 1) example_transactions) = [5111, 5111, 5111, 5111]"
    by (simp add: numerical_features_def field_values_def non_missing_def example_transactions_def txn_def)
  note t = correlation_matrix_symmetric_diagonal [of numerical_features example_transactions]
  note diag = t [THEN conjunct2, THEN conjunct2, THEN conjunct2, THEN conjunct2, THEN conjunct2,
                 THEN conjunct2, THEN conjunct1, rule_format]
  note symm = t [THEN conjunct2, THEN conjunct2, THEN conjunct2, THEN conjunct2, THEN conjunct2,
                 THEN conjunct1, rule_format]
  have e: "\<exists>a \<in> set [10, 50, 30, 90 :: real]. \<exists>b \<in> set [10, 50, 30, 90]. a \<noteq> b"
    by (rule bexI [of _ 10], rule bexI [of _ 50]) simp_all
  have a: "correlation_matrix numerical_features example_transactions ! 0 ! 0 = Some 1"
    unfolding diag [OF l0] v0 using e by (simp only: if_True)
  have b: "correlation_matrix numerical_features example_transactions ! 1 ! 1 = None"
    unfolding diag [OF l1] v1 by simp
  have c: "correlation_matrix numerical_features example_transactions ! 0 ! 1
        = correlation_matrix numerical_features example_transactions ! 1 ! 0"
    by (rule symm [OF l0 l1])
  note u = correlation_matrix_symmetric_diagonal [of numerical_features varied_transactions]
  note entry = u [THEN conjunct2, THEN conjunct2, THEN conjunct2, THEN conjunct1, rule_format,
                  OF l0 l1, unfolded Let_def]
  note usymm = u [THEN conjunct2, THEN conjunct2, THEN conjunct2, THEN conjunct2, THEN conjunct2,
                  THEN conjunct1, rule_format, OF l0 l1]
  have n: "numerical_features ! 0 = transaction_amount" "numerical_features ! 1 = mcc"
    by (simp_all add: numerical_features_def)
  have d: "correlation_matrix numerical_features varied_transactions ! 0 ! 1 = Some (1 / 2)"
    unfolding entry n varied_pairs by simp
  from usymm d have f: "correlation_matrix numerical_features varied_transactions ! 1 ! 0 = Some (1 / 2)"
    by simp
  from l0 l1 a b c d f show ?thesis by (intro conjI)
qed

end
